theory Spec2Isabelle
  imports Complex_Main
begin

section \<open>Sidenote layout of sidenotes.js\<close>

text \<open>
  The development embeds the layout part of \<^verbatim>\<open>src/js/sidenotes.js\<close>:
  \<^verbatim>\<open>isWithinCollapsedBlock\<close>, \<^verbatim>\<open>constructSidenotes\<close>,
  \<^verbatim>\<open>updateSidenotesInCollapseBlocks\<close> and \<^verbatim>\<open>updateSidenotePositions\<close>.

  Conventions of the embedding.
  \<^item> A sidenote is named by its position \<open>i\<close> in \<^verbatim>\<open>GW.sidenotes.sidenoteDivs\<close>
    (0-based, as the source counts); its number, the \<open>n\<close> of its id
    \<^verbatim>\<open>sn<n>\<close>, is \<open>i + 1\<close>.
  \<^item> Pixel values are integers. \<^verbatim>\<open>Math.round\<close> and \<^verbatim>\<open>parseInt\<close> are then the
    identity; halfway points, which the source divides by two, are rationals.
  \<^item> Sidenotes are absolutely positioned inside their column: the \<^verbatim>\<open>offsetTop\<close> of
    a displayed sidenote is the value of its \<^verbatim>\<open>style.top\<close>.
  \<^item> What the browser measures (bounding rectangles, client heights, the state of
    the disclosure buttons) is the read-only record \<open>page\<close>; what the functions
    mutate (the children of the two columns and of the hidden storage,
    \<^verbatim>\<open>style.top\<close> of every sidenote, the visibility of the columns) is the
    record \<open>dom\<close>.
\<close>

subsection \<open>Data\<close>

datatype container = ColumnLeft | ColumnRight | HiddenStorage

record range =
  range_top :: int
  range_bottom :: int

record footnoteRef =
  collapseBlocks :: "bool list"
  refRectTop :: int

record column =
  rectTop :: int
  offsetTop :: int
  clientHeight :: int

record page =
  viewportWidthBreakpoint :: bool
  footnoteRefs :: "footnoteRef list"
  sidenoteHeights :: "int list"
  columnLeft :: column
  columnRight :: column
  potentiallyOverlappingElements :: "range list"

record dom =
  sidenoteColumnLeft :: "nat list"
  sidenoteColumnRight :: "nat list"
  hiddenSidenoteStorage :: "nat list"
  styleTop :: "int list"
  columnsVisible :: bool

text \<open>
  \<open>collapseBlocks\<close> lists, innermost first, the enclosing \<^verbatim>\<open>.collapse\<close> blocks of a
  footnote reference, each by the \<^verbatim>\<open>checked\<close> state of its disclosure button.
  \<open>refRectTop\<close> is \<^verbatim>\<open>getBoundingClientRect().top\<close> of the reference.
  \<open>sidenoteHeights ! i\<close> is \<^verbatim>\<open>sidenoteDivs[i].clientHeight\<close>.
  \<open>potentiallyOverlappingElements\<close> are the bounding rectangles of the elements
  matched by \<^verbatim>\<open>potentiallyOverlappingElementsSelector\<close>, in document order.
\<close>

definition sidenoteSpacing :: int where
  "sidenoteSpacing = 60"

subsection \<open>Collapse blocks\<close>

definition isCollapsed :: "bool \<Rightarrow> bool" where
  "isCollapsed checked = (checked = False)"

fun isWithinCollapsedBlock :: "bool list \<Rightarrow> bool" where
  "isWithinCollapsedBlock [] = False"
| "isWithinCollapsedBlock (collapseParent # outer) =
     (if isCollapsed collapseParent then True else isWithinCollapsedBlock outer)"

subsection \<open>The tree of sidenotes\<close>

text \<open>\<^verbatim>\<open>(i % 2) ? GW.sidenotes.sidenoteColumnLeft : GW.sidenotes.sidenoteColumnRight\<close>\<close>

definition sideOf :: "nat \<Rightarrow> container" where
  "sideOf i = (if i mod 2 \<noteq> 0 then ColumnLeft else ColumnRight)"

definition childrenOf :: "dom \<Rightarrow> container \<Rightarrow> nat list" where
  "childrenOf d c = (case c of
      ColumnLeft \<Rightarrow> sidenoteColumnLeft d
    | ColumnRight \<Rightarrow> sidenoteColumnRight d
    | HiddenStorage \<Rightarrow> hiddenSidenoteStorage d)"

definition setChildren :: "container \<Rightarrow> nat list \<Rightarrow> dom \<Rightarrow> dom" where
  "setChildren c xs d = (case c of
      ColumnLeft \<Rightarrow> d\<lparr>sidenoteColumnLeft := xs\<rparr>
    | ColumnRight \<Rightarrow> d\<lparr>sidenoteColumnRight := xs\<rparr>
    | HiddenStorage \<Rightarrow> d\<lparr>hiddenSidenoteStorage := xs\<rparr>)"

definition parentElement :: "dom \<Rightarrow> nat \<Rightarrow> container option" where
  "parentElement d x =
     (if x \<in> set (hiddenSidenoteStorage d) then Some HiddenStorage
      else if x \<in> set (sidenoteColumnLeft d) then Some ColumnLeft
      else if x \<in> set (sidenoteColumnRight d) then Some ColumnRight
      else None)"

fun nextIn :: "nat list \<Rightarrow> nat \<Rightarrow> nat option" where
  "nextIn [] x = None"
| "nextIn [y] x = None"
| "nextIn (y # z # ys) x = (if y = x then Some z else nextIn (z # ys) x)"

fun previousIn :: "nat list \<Rightarrow> nat \<Rightarrow> nat option" where
  "previousIn [] x = None"
| "previousIn [y] x = None"
| "previousIn (y # z # ys) x = (if z = x then Some y else previousIn (z # ys) x)"

definition nextElementSibling :: "dom \<Rightarrow> nat \<Rightarrow> nat option" where
  "nextElementSibling d x = (case parentElement d x of
      None \<Rightarrow> None
    | Some c \<Rightarrow> nextIn (childrenOf d c) x)"

definition previousElementSibling :: "dom \<Rightarrow> nat \<Rightarrow> nat option" where
  "previousElementSibling d x = (case parentElement d x of
      None \<Rightarrow> None
    | Some c \<Rightarrow> previousIn (childrenOf d c) x)"

text \<open>A node has one parent: inserting it anywhere first takes it out of where it is.\<close>

definition detach :: "nat \<Rightarrow> dom \<Rightarrow> dom" where
  "detach x d = d\<lparr>sidenoteColumnLeft := removeAll x (sidenoteColumnLeft d),
                  sidenoteColumnRight := removeAll x (sidenoteColumnRight d),
                  hiddenSidenoteStorage := removeAll x (hiddenSidenoteStorage d)\<rparr>"

definition appendChild :: "container \<Rightarrow> nat \<Rightarrow> dom \<Rightarrow> dom" where
  "appendChild c x d = (let d' = detach x d in setChildren c (childrenOf d' c @ [x]) d')"

definition insertBeforeIn :: "nat \<Rightarrow> nat \<Rightarrow> nat list \<Rightarrow> nat list" where
  "insertBeforeIn x ref xs = takeWhile (\<lambda>y. y \<noteq> ref) xs @ x # dropWhile (\<lambda>y. y \<noteq> ref) xs"

text \<open>
  \<^verbatim>\<open>parent.insertBefore(node, ref)\<close> throws (NotFoundError) when \<open>ref\<close> is not a child
  of \<open>parent\<close>; the model then returns \<open>None\<close>.
\<close>

definition insertBefore :: "container \<Rightarrow> nat \<Rightarrow> nat \<Rightarrow> dom \<Rightarrow> dom option" where
  "insertBefore c x ref d =
     (if ref \<in> set (childrenOf d c)
      then (let d' = detach x d in Some (setChildren c (insertBeforeIn x ref (childrenOf d' c)) d'))
      else None)"

subsection \<open>constructSidenotes\<close>

text \<open>
  The part of \<^verbatim>\<open>constructSidenotes\<close> that builds the tree: two fresh, hidden
  (\<^verbatim>\<open>visibility:hidden\<close>) columns, one sidenote per footnote reference appended to
  the column of its side, and an empty hidden storage. No \<^verbatim>\<open>style.top\<close> is set;
  the positions are whatever list is passed in.
\<close>

definition constructSidenotes :: "nat \<Rightarrow> int list \<Rightarrow> dom" where
  "constructSidenotes n tops =
     foldl (\<lambda>d i. appendChild (sideOf i) i d)
       \<lparr>sidenoteColumnLeft = [], sidenoteColumnRight = [], hiddenSidenoteStorage = [],
        styleTop = tops, columnsVisible = False\<rparr>
       [0..<n]"

subsection \<open>updateSidenotesInCollapseBlocks\<close>

text \<open>
  \<^verbatim>\<open>
  var nextSidenoteIndex = i + 2;
  while (nextSidenoteIndex < GW.sidenotes.footnoteRefs.length &&
         GW.sidenotes.sidenoteDivs[nextSidenoteIndex].parentElement == GW.sidenotes.hiddenSidenoteStorage)
         nextSidenoteIndex += 2;
  \<close>
\<close>

function nextSidenoteIndex :: "dom \<Rightarrow> nat \<Rightarrow> nat \<Rightarrow> nat" where
  "nextSidenoteIndex d n j =
     (if j < n \<and> parentElement d j = Some HiddenStorage
      then nextSidenoteIndex d n (j + 2) else j)"
  by pat_completeness auto
termination
  by (relation "measure (\<lambda>(d, n, j). n - j)") auto

declare nextSidenoteIndex.simps [simp del]

datatype 'a outcome = Normal 'a | Threw 'a

definition moveSidenote :: "footnoteRef list \<Rightarrow> nat \<Rightarrow> dom \<Rightarrow> dom outcome" where
  "moveSidenote refs i d =
     (if isWithinCollapsedBlock (collapseBlocks (refs ! i))
      then Normal (appendChild HiddenStorage i d)
      else
        (let side = sideOf i;
             next = nextSidenoteIndex d (length refs) (i + 2)
         in if next \<ge> length refs
            then Normal (appendChild side i d)
            else (case insertBefore side i next d of
                    Some d' \<Rightarrow> Normal d'
                  | None \<Rightarrow> Threw d)))"

fun moveSidenotes :: "footnoteRef list \<Rightarrow> nat list \<Rightarrow> dom \<Rightarrow> dom outcome" where
  "moveSidenotes refs [] d = Normal d"
| "moveSidenotes refs (i # is) d = (case moveSidenote refs i d of
      Normal d' \<Rightarrow> moveSidenotes refs is d'
    | Threw d' \<Rightarrow> Threw d')"

definition updateSidenotesInCollapseBlocks :: "footnoteRef list \<Rightarrow> dom \<Rightarrow> dom outcome" where
  "updateSidenotesInCollapseBlocks refs d = moveSidenotes refs [0..<length refs] d"

subsection \<open>updateSidenotePositions: geometry\<close>

definition sideColumn :: "page \<Rightarrow> container \<Rightarrow> column" where
  "sideColumn g c = (case c of ColumnLeft \<Rightarrow> columnLeft g | _ \<Rightarrow> columnRight g)"

text \<open>
  The default position of a displayed sidenote (line 352):
  \<^verbatim>\<open>Math.round((footnoteRefs[i].getBoundingClientRect().top - side.getBoundingClientRect().top) + 4)\<close>
\<close>

definition defaultTop :: "page \<Rightarrow> nat \<Rightarrow> int" where
  "defaultTop g i = (refRectTop (footnoteRefs g ! i) - rectTop (sideColumn g (sideOf i))) + 4"

text \<open>The initial layout pass (lines 339 to 358): hidden sidenotes are skipped.\<close>

definition initialTop :: "page \<Rightarrow> dom \<Rightarrow> int list \<Rightarrow> nat \<Rightarrow> int list" where
  "initialTop g d tops i =
     (if parentElement d i = Some HiddenStorage then tops else tops[i := defaultTop g i])"

definition initialLayout :: "page \<Rightarrow> dom \<Rightarrow> int list" where
  "initialLayout g d = foldl (initialTop g d) (styleTop d) [0..<length (footnoteRefs g)]"

text \<open>
  The proscribed vertical ranges (lines 363 to 379): the overlapping elements,
  relative to the top of the right column, and then the bottom of the right column.
\<close>

definition proscribedVerticalRanges :: "page \<Rightarrow> range list" where
  "proscribedVerticalRanges g =
     map (\<lambda>r. \<lparr>range_top = range_top r - rectTop (columnRight g),
               range_bottom = range_bottom r - rectTop (columnRight g)\<rparr>)
         (potentiallyOverlappingElements g)
     @ [\<lparr>range_top = clientHeight (columnRight g), range_bottom = clientHeight (columnRight g)\<rparr>]"

subsection \<open>updateSidenotePositions: the room of a sidenote\<close>

record room =
  room_ceiling :: int
  room_floor :: int
  nextProscribedRangeAfterSidenote :: int

definition halfwayPoint :: "int \<Rightarrow> int \<Rightarrow> rat" where
  "halfwayPoint t b = (of_int t + of_int b) / 2"

text \<open>
  One round of the loop of lines 414 to 433, for the index \<open>j\<close>: the range counted up
  may raise the ceiling, the range counted down may lower the floor. \<open>off\<close> is
  \<^verbatim>\<open>side.offsetTop\<close>, \<open>m\<close> is \<^verbatim>\<open>sidenoteFootprintHalfwayPoint\<close>.
\<close>

definition narrowRoom :: "range list \<Rightarrow> int \<Rightarrow> rat \<Rightarrow> room \<Rightarrow> nat \<Rightarrow> room" where
  "narrowRoom ranges off m r j =
     (let upTop = range_top (ranges ! j) - off;
          upBottom = range_bottom (ranges ! j) - off;
          r1 = (if halfwayPoint upTop upBottom < m then r\<lparr>room_ceiling := upBottom\<rparr> else r);
          indexCountingDown = length ranges - j - 1;
          downTop = range_top (ranges ! indexCountingDown) - off;
          downBottom = range_bottom (ranges ! indexCountingDown) - off
      in if halfwayPoint downTop downBottom > m
         then r1\<lparr>room_floor := downTop,
                 nextProscribedRangeAfterSidenote := int indexCountingDown\<rparr>
         else r1)"

definition computeRoom :: "range list \<Rightarrow> column \<Rightarrow> rat \<Rightarrow> room" where
  "computeRoom ranges side m =
     foldl (narrowRoom ranges (offsetTop side) m)
       \<lparr>room_ceiling = 0, room_floor = clientHeight side, nextProscribedRangeAfterSidenote = - 1\<rparr>
       [0..<length ranges]"

text \<open>The footprint of sidenote \<open>i\<close> when its \<^verbatim>\<open>style.top\<close> is \<open>t\<close> (lines 404 to 408).\<close>

definition footprintTop :: "int \<Rightarrow> int" where
  "footprintTop t = t - sidenoteSpacing"

definition footprintBottom :: "page \<Rightarrow> nat \<Rightarrow> int \<Rightarrow> int" where
  "footprintBottom g i t = t + sidenoteHeights g ! i + sidenoteSpacing"

definition roomOf :: "page \<Rightarrow> nat \<Rightarrow> int \<Rightarrow> room" where
  "roomOf g i t =
     computeRoom (proscribedVerticalRanges g) (sideColumn g (sideOf i))
       (halfwayPoint (footprintTop t) (footprintBottom g i t))"

subsection \<open>updateSidenotePositions: one round of the overlap correction\<close>

text \<open>
  How one round of the loop of lines 385 to 552 ends for a displayed sidenote:
  \<^item> \<open>Placed\<close>: \<^verbatim>\<open>continue\<close> at line 497 or 513, or the end of the body at line 551;
  \<^item> \<open>LeftAlone\<close>: \<^verbatim>\<open>continue\<close> at line 539 (the next sidenote would not fit);
  \<^item> \<open>Again\<close>: \<^verbatim>\<open>i--; continue\<close> at line 454 or 526 (moved past the next range);
  \<^item> \<open>GiveUp\<close>: \<^verbatim>\<open>return\<close> at line 446;
  \<^item> \<open>TypeError\<close>: reading \<^verbatim>\<open>proscribedVerticalRanges[-1].bottom\<close> (or
    \<^verbatim>\<open>.top\<close>), or \<^verbatim>\<open>nextSidenote.clientHeight\<close> of \<^verbatim>\<open>null\<close>.
  Each carries the \<^verbatim>\<open>style.top\<close> values at that point.
\<close>

datatype round = Placed "int list" | LeftAlone "int list" | Again "int list"
  | GiveUp "int list" | TypeError "int list"

text \<open>Lines 499 to 551: the sidenote overlaps something below it.\<close>

definition resolveOverlapBelow ::
  "page \<Rightarrow> dom \<Rightarrow> nat \<Rightarrow> room \<Rightarrow> int list \<Rightarrow> int \<Rightarrow> int \<Rightarrow> int \<Rightarrow> int \<Rightarrow> int \<Rightarrow> round" where
  "resolveOverlapBelow g d i r tops fpTop fpBottom overlapWithFloor overlapWithNextSidenote overlapBelow =
     (let ranges = proscribedVerticalRanges g;
          nextRange = nextProscribedRangeAfterSidenote r;
          maxHeadroom = fpTop - room_ceiling r;
          headroom = (case previousElementSibling d i of
                        Some p \<Rightarrow> min maxHeadroom (fpTop - (tops ! p + sidenoteHeights g ! p))
                      | None \<Rightarrow> maxHeadroom)
      in if headroom \<ge> overlapBelow
         then Placed (tops[i := tops ! i - overlapBelow])
         else if headroom < overlapWithFloor
         then (if nextRange = - 1 then TypeError tops
               else Again (tops[i := range_bottom (ranges ! nat nextRange) + sidenoteSpacing]))
         else (case nextElementSibling d i of
                 None \<Rightarrow> TypeError tops
               | Some nx \<Rightarrow>
                   if nextRange = - 1 then TypeError tops
                   else if fpBottom + sidenoteHeights g ! nx + sidenoteSpacing - headroom
                           > range_top (ranges ! nat nextRange)
                   then LeftAlone tops
                   else (let tops1 = tops[i := tops ! i - headroom]
                         in Placed (tops1[nx := tops1 ! nx + (overlapWithNextSidenote - headroom)]))))"

text \<open>Lines 456 to 497: the sidenote fits in its room.\<close>

definition placeInRoom :: "page \<Rightarrow> dom \<Rightarrow> nat \<Rightarrow> room \<Rightarrow> int list \<Rightarrow> round" where
  "placeInRoom g d i r tops =
     (let overlapWithCeiling = room_ceiling r - footprintTop (tops ! i);
          shift = (if overlapWithCeiling > 0 then overlapWithCeiling else 0);
          tops1 = (if overlapWithCeiling > 0 then tops[i := tops ! i + overlapWithCeiling] else tops);
          fpTop = footprintTop (tops ! i) + shift;
          fpBottom = footprintBottom g i (tops ! i) + shift;
          overlapWithFloor = fpBottom - room_floor r;
          overlapWithNextSidenote = (case nextElementSibling d i of
                                       Some nx \<Rightarrow> fpBottom - tops1 ! nx
                                     | None \<Rightarrow> - 1);
          overlapBelow = max overlapWithNextSidenote overlapWithFloor
      in if overlapBelow \<le> 0 then Placed tops1
         else resolveOverlapBelow g d i r tops1 fpTop fpBottom
                overlapWithFloor overlapWithNextSidenote overlapBelow)"

text \<open>Lines 386 to 455: the room, and whether the sidenote can fit in it at all.\<close>

definition layoutRound :: "page \<Rightarrow> dom \<Rightarrow> nat \<Rightarrow> int list \<Rightarrow> round" where
  "layoutRound g d i tops =
     (let r = roomOf g i (tops ! i);
          nextRange = nextProscribedRangeAfterSidenote r
      in if footprintBottom g i (tops ! i) - footprintTop (tops ! i) > room_floor r - room_ceiling r
         then (if nextRange = - 1 then GiveUp tops
               else Again (tops[i := range_bottom (proscribedVerticalRanges g ! nat nextRange)
                                      + sidenoteSpacing]))
         else placeInRoom g d i r tops)"

subsection \<open>updateSidenotePositions: the loop and the function\<close>

datatype exit = ExitPlaced | ExitLeftAlone | ExitAgain

datatype result = Completed | GaveUp | Exception | FootnotesMode

text \<open>
  The loop of lines 385 to 552, from index \<open>i\<close>. It may run forever, so it is a partial
  function: \<open>None\<close> is a loop that never ends. Besides the positions it returns how
  every round ended, in order, so that statements can speak of what the loop did.
\<close>

partial_function (option) layoutLoop ::
  "page \<Rightarrow> dom \<Rightarrow> nat \<Rightarrow> int list \<Rightarrow> (nat \<times> exit) list
     \<Rightarrow> (result \<times> int list \<times> (nat \<times> exit) list) option" where
  "layoutLoop g d i tops tr =
     (if i \<ge> length (footnoteRefs g) then Some (Completed, tops, tr)
      else if parentElement d i = Some HiddenStorage then layoutLoop g d (i + 1) tops tr
      else (case layoutRound g d i tops of
              Placed tops' \<Rightarrow> layoutLoop g d (i + 1) tops' (tr @ [(i, ExitPlaced)])
            | LeftAlone tops' \<Rightarrow> layoutLoop g d (i + 1) tops' (tr @ [(i, ExitLeftAlone)])
            | Again tops' \<Rightarrow> layoutLoop g d i tops' (tr @ [(i, ExitAgain)])
            | GiveUp tops' \<Rightarrow> Some (GaveUp, tops', tr)
            | TypeError tops' \<Rightarrow> Some (Exception, tops', tr)))"

declare layoutLoop.simps [code]

text \<open>
  \<^verbatim>\<open>updateSidenotePositions\<close>. The re-homing of the left column (lines 319 to 331)
  only changes what the browser then measures; \<open>page\<close> holds the measurements taken
  after it. The columns are shown (lines 555 and 556) only when the loop runs to its
  end.
\<close>

definition updateSidenotePositions ::
  "page \<Rightarrow> dom \<Rightarrow> (result \<times> dom \<times> (nat \<times> exit) list) option" where
  "updateSidenotePositions g d =
     (if viewportWidthBreakpoint g then Some (FootnotesMode, d, [])
      else (case updateSidenotesInCollapseBlocks (footnoteRefs g) d of
              Threw d1 \<Rightarrow> Some (Exception, d1, [])
            | Normal d1 \<Rightarrow>
                (let d2 = d1\<lparr>styleTop := initialLayout g d1\<rparr>
                 in (case layoutLoop g d2 0 (styleTop d2) [] of
                       None \<Rightarrow> None
                     | Some (res, tops, tr) \<Rightarrow>
                         Some (res,
                               (if res = Completed
                                then d2\<lparr>styleTop := tops, columnsVisible := True\<rparr>
                                else d2\<lparr>styleTop := tops\<rparr>),
                               tr)))))"

subsection \<open>Well-formed states and pages\<close>

text \<open>
  What \<^verbatim>\<open>constructSidenotes\<close> establishes and every later function keeps: each of the
  \<open>n\<close> sidenotes has exactly one parent, a sidenote in a column is in the column of its
  side, the children of a column are in the order of their indices, and every sidenote
  has a \<^verbatim>\<open>style.top\<close>.
\<close>

definition dom_ok :: "nat \<Rightarrow> dom \<Rightarrow> bool" where
  "dom_ok n d \<longleftrightarrow>
     sorted_wrt (<) (sidenoteColumnLeft d) \<and> sorted_wrt (<) (sidenoteColumnRight d) \<and>
     distinct (hiddenSidenoteStorage d) \<and>
     set (sidenoteColumnLeft d) \<union> set (sidenoteColumnRight d) \<union> set (hiddenSidenoteStorage d)
       = {0..<n} \<and>
     (\<forall>i \<in> set (sidenoteColumnLeft d). sideOf i = ColumnLeft \<and> i \<notin> set (hiddenSidenoteStorage d)) \<and>
     (\<forall>i \<in> set (sidenoteColumnRight d). sideOf i = ColumnRight \<and> i \<notin> set (hiddenSidenoteStorage d)) \<and>
     length (styleTop d) = n"

text \<open>
  What the browser guarantees of the measurements: one height per sidenote, no
  negative height, no rectangle whose bottom is above its top; and the columns are
  not above their offset parent.
\<close>

definition page_ok :: "page \<Rightarrow> bool" where
  "page_ok g \<longleftrightarrow>
     length (sidenoteHeights g) = length (footnoteRefs g) \<and>
     (\<forall>h \<in> set (sidenoteHeights g). 0 \<le> h) \<and>
     (\<forall>r \<in> set (potentiallyOverlappingElements g). range_top r \<le> range_bottom r) \<and>
     0 \<le> offsetTop (columnLeft g) \<and> 0 \<le> offsetTop (columnRight g)"

text \<open>Two states with the same tree of sidenotes.\<close>

definition sameTree :: "dom \<Rightarrow> dom \<Rightarrow> bool" where
  "sameTree d d' \<longleftrightarrow> sidenoteColumnLeft d = sidenoteColumnLeft d' \<and>
     sidenoteColumnRight d = sidenoteColumnRight d' \<and>
     hiddenSidenoteStorage d = hiddenSidenoteStorage d'"

subsection \<open>The reclassification, described\<close>

text \<open>
  \<open>collapsed refs i\<close>: the reference of sidenote \<open>i\<close> is within a currently-collapsed
  block. \<open>displayedOn refs c i\<close>: it is not, and \<open>c\<close> is the side of sidenote \<open>i\<close>.
\<close>

definition collapsed :: "footnoteRef list \<Rightarrow> nat \<Rightarrow> bool" where
  "collapsed refs i = isWithinCollapsedBlock (collapseBlocks (refs ! i))"

definition displayedOn :: "footnoteRef list \<Rightarrow> container \<Rightarrow> nat \<Rightarrow> bool" where
  "displayedOn refs c i \<longleftrightarrow> \<not> collapsed refs i \<and> sideOf i = c"

text \<open>
  \<open>classified refs d\<close> is \<open>d\<close> with the tree in which the hidden storage holds the
  sidenotes of collapsed references and each column the other sidenotes of its side,
  all in the order of their indices; \<open>classifiedUpTo refs k d\<close> is the tree reached
  from \<open>d\<close> when the sidenotes below \<open>k\<close> have been moved.
\<close>

definition classifiedUpTo :: "footnoteRef list \<Rightarrow> nat \<Rightarrow> dom \<Rightarrow> dom" where
  "classifiedUpTo refs k d =
     d\<lparr>sidenoteColumnLeft :=
         filter (displayedOn refs ColumnLeft) [0..<k] @ filter (\<lambda>j. k \<le> j) (sidenoteColumnLeft d),
       sidenoteColumnRight :=
         filter (displayedOn refs ColumnRight) [0..<k] @ filter (\<lambda>j. k \<le> j) (sidenoteColumnRight d),
       hiddenSidenoteStorage :=
         filter (\<lambda>j. k \<le> j) (hiddenSidenoteStorage d) @ filter (collapsed refs) [0..<k]\<rparr>"

definition classified :: "footnoteRef list \<Rightarrow> dom \<Rightarrow> dom" where
  "classified refs d =
     d\<lparr>sidenoteColumnLeft := filter (displayedOn refs ColumnLeft) [0..<length refs],
       sidenoteColumnRight := filter (displayedOn refs ColumnRight) [0..<length refs],
       hiddenSidenoteStorage := filter (collapsed refs) [0..<length refs]\<rparr>"

text \<open>
  The next displayed sidenote of the same side: the least larger index of the same
  parity whose reference is not within a collapsed block.
\<close>

definition nextDisplayed :: "footnoteRef list \<Rightarrow> nat \<Rightarrow> nat option" where
  "nextDisplayed refs i = find (displayedOn refs (sideOf i)) [Suc i..<length refs]"

subsection \<open>The room, described\<close>

text \<open>
  The halfway point of a proscribed range as the loop of lines 414 to 433 sees it
  (shifted by \<^verbatim>\<open>side.offsetTop\<close>); the last range of the list whose halfway point is
  above \<open>m\<close>, and the index of the first range of the list whose halfway point is
  below \<open>m\<close>.
\<close>

definition midpointOf :: "int \<Rightarrow> range \<Rightarrow> rat" where
  "midpointOf off r = halfwayPoint (range_top r - off) (range_bottom r - off)"

definition lastAbove :: "range list \<Rightarrow> int \<Rightarrow> rat \<Rightarrow> range option" where
  "lastAbove ranges off m = find (\<lambda>r. midpointOf off r < m) (rev ranges)"

definition firstBelow :: "range list \<Rightarrow> int \<Rightarrow> rat \<Rightarrow> nat option" where
  "firstBelow ranges off m = find (\<lambda>k. midpointOf off (ranges ! k) > m) [0..<length ranges]"

subsection \<open>The rounds, described\<close>

text \<open>The positions a round ends with, however it ends.\<close>

fun roundTops :: "round \<Rightarrow> int list" where
  "roundTops (Placed tops) = tops"
| "roundTops (LeftAlone tops) = tops"
| "roundTops (Again tops) = tops"
| "roundTops (GiveUp tops) = tops"
| "roundTops (TypeError tops) = tops"

text \<open>
  \<open>rangesBelow g i t\<close> counts the proscribed ranges whose halfway point is below that
  of the footprint of sidenote \<open>i\<close> at top \<open>t\<close>. \<open>retries\<close> counts the rounds of a run
  that ended with \<^verbatim>\<open>i--; continue\<close>; \<open>retryBound g i tops\<close> bounds the number of such
  rounds still to come when the loop is at index \<open>i\<close> with the positions \<open>tops\<close>.
\<close>

definition footprintHalfwayPoint :: "page \<Rightarrow> nat \<Rightarrow> int \<Rightarrow> rat" where
  "footprintHalfwayPoint g i t = halfwayPoint (footprintTop t) (footprintBottom g i t)"


definition retries :: "(nat \<times> exit) list \<Rightarrow> nat" where
  "retries tr = length (filter (\<lambda>x. snd x = ExitAgain) tr)"




subsection \<open>Example pages\<close>

text \<open>
  A page in sidenotes mode with no collapse blocks, both columns at the top of the
  viewport and of their offset parent and of the same height \<open>h\<close>: the references are
  given by their tops, the sidenotes by their heights.
\<close>

definition simplePage :: "int list \<Rightarrow> int list \<Rightarrow> int \<Rightarrow> range list \<Rightarrow> page" where
  "simplePage anchors heights h elements =
     \<lparr>viewportWidthBreakpoint = False,
      footnoteRefs = map (\<lambda>a. \<lparr>collapseBlocks = [], refRectTop = a\<rparr>) anchors,
      sidenoteHeights = heights,
      columnLeft = \<lparr>rectTop = 0, offsetTop = 0, clientHeight = h\<rparr>,
      columnRight = \<lparr>rectTop = 0, offsetTop = 0, clientHeight = h\<rparr>,
      potentiallyOverlappingElements = elements\<rparr>"

text \<open>
  Three sidenotes of height 100; the reference of the second one is within an expanded
  block that is itself within a collapsed block.
\<close>

definition collapsePage :: page where
  "collapsePage = (simplePage [0, 0, 40] [100, 100, 100] 10000 [])
     \<lparr>footnoteRefs := [\<lparr>collapseBlocks = [], refRectTop = 0\<rparr>,
                       \<lparr>collapseBlocks = [True, False], refRectTop = 0\<rparr>,
                       \<lparr>collapseBlocks = [], refRectTop = 40\<rparr>]\<rparr>"

text \<open>Six references; the third and the fifth are within collapsed blocks.\<close>

definition exampleRefs :: "footnoteRef list" where
  "exampleRefs = map (\<lambda>c. \<lparr>collapseBlocks = c, refRectTop = 0\<rparr>)
     [[], [], [True, False], [], [False], []]"

text \<open>
  One sidenote of height 300 and columns of height 200, the right column 215 above
  its offset parent.
\<close>

definition raisedColumnPage :: page where
  "raisedColumnPage = (simplePage [0] [300] 200 [])
     \<lparr>columnRight := \<lparr>rectTop = 0, offsetTop = - 215, clientHeight = 200\<rparr>\<rparr>"

section \<open>Properties\<close>

subsection \<open>Sides and parents\<close>

lemma sideOf_cases: "sideOf i = ColumnLeft \<or> sideOf i = ColumnRight"
  by (simp add: sideOf_def)

lemma sideOf_not_hidden [simp]: "sideOf i \<noteq> HiddenStorage"
  by (simp add: sideOf_def)

lemma constructSidenotes_eq:
  "constructSidenotes n tops =
     \<lparr>sidenoteColumnLeft = filter (\<lambda>i. sideOf i = ColumnLeft) [0..<n],
      sidenoteColumnRight = filter (\<lambda>i. sideOf i = ColumnRight) [0..<n],
      hiddenSidenoteStorage = [], styleTop = tops, columnsVisible = False\<rparr>"
proof (induction n)
  case 0
  show ?case by (simp add: constructSidenotes_def)
next
  case (Suc n)
  have "constructSidenotes (Suc n) tops = appendChild (sideOf n) n (constructSidenotes n tops)"
    by (simp add: constructSidenotes_def)
  also have "\<dots> = \<lparr>sidenoteColumnLeft = filter (\<lambda>i. sideOf i = ColumnLeft) [0..<Suc n],
      sidenoteColumnRight = filter (\<lambda>i. sideOf i = ColumnRight) [0..<Suc n],
      hiddenSidenoteStorage = [], styleTop = tops, columnsVisible = False\<rparr>"
    unfolding Suc.IH using sideOf_cases [of n]
    by (auto simp add: appendChild_def detach_def setChildren_def childrenOf_def Let_def)
  finally show ?case .
qed

lemma sorted_filter_upt: "sorted_wrt (<) (filter P [0..<n])"
  by (simp add: sorted_wrt_filter)

lemma dom_ok_constructSidenotes: "length tops = n \<Longrightarrow> dom_ok n (constructSidenotes n tops)"
  unfolding constructSidenotes_eq dom_ok_def using sideOf_cases
  by (auto simp add: sorted_filter_upt)

lemma parentElement_constructSidenotes:
  "i < n \<Longrightarrow> parentElement (constructSidenotes n tops) i = Some (sideOf i)"
  unfolding constructSidenotes_eq parentElement_def using sideOf_cases [of i]
  by auto

lemma parentElement_appendChild: "parentElement (appendChild c x d) x = Some c"
  by (cases c)
    (simp_all add: appendChild_def parentElement_def detach_def setChildren_def childrenOf_def Let_def)

lemma parentElement_insertBefore:
  "c \<noteq> HiddenStorage \<Longrightarrow> insertBefore c x ref d = Some d' \<Longrightarrow> parentElement d' x = Some c"
  by (cases c)
    (auto simp add: insertBefore_def insertBeforeIn_def parentElement_def detach_def
       setChildren_def childrenOf_def Let_def split: if_splits)

lemma parentElement_moveSidenote:
  "\<not> isWithinCollapsedBlock (collapseBlocks (refs ! i)) \<Longrightarrow> moveSidenote refs i d = Normal d'
    \<Longrightarrow> parentElement d' i = Some (sideOf i)"
  by (auto simp add: moveSidenote_def Let_def parentElement_appendChild parentElement_insertBefore
      split: if_splits option.splits)

text \<open>
  C3, as the claim states it, fails: sidenote number 1 (index 0 of the arrays) has an
  odd number, and \<^verbatim>\<open>constructSidenotes\<close> puts it in the right column, not the left.
\<close>

theorem C3_odd_number_is_not_left:
  "odd (0 + 1 :: nat) \<and> parentElement (constructSidenotes 1 []) 0 = Some ColumnRight
     \<and> Some ColumnRight \<noteq> Some ColumnLeft"
  by (simp add: parentElement_constructSidenotes sideOf_def)

text \<open>
  C3, amended: the column of a sidenote is a function of the parity of its number
  \<open>i + 1\<close>, the other way round: an odd number puts it in the right column, an even
  number in the left column (the source's own comment: ``Odd - right; even - left'').
  This is the column \<^verbatim>\<open>constructSidenotes\<close> appends it to, and the column
  \<^verbatim>\<open>updateSidenotesInCollapseBlocks\<close> moves it (back) to whenever its reference is not
  within a collapsed block.
\<close>

theorem C3_side_by_parity:
  "sideOf i = (if odd (i + 1) then ColumnRight else ColumnLeft) \<and>
   (i < n \<longrightarrow> parentElement (constructSidenotes n tops) i = Some (sideOf i)) \<and>
   (\<not> isWithinCollapsedBlock (collapseBlocks (refs ! i)) \<and> moveSidenote refs i d = Normal d'
      \<longrightarrow> parentElement d' i = Some (sideOf i))"
  by (auto simp add: sideOf_def odd_iff_mod_2_eq_one
      parentElement_constructSidenotes [unfolded sideOf_def]
      dest: parentElement_moveSidenote [unfolded sideOf_def])

theorem C3_side_by_parity_witness:
  "sideOf 3 = ColumnLeft \<and> 3 < (4::nat) \<and>
   parentElement (constructSidenotes 4 []) 3 = Some ColumnLeft \<and>
   \<not> isWithinCollapsedBlock (collapseBlocks (footnoteRefs (simplePage [0, 0, 0, 0] [] 0 []) ! 3)) \<and>
   moveSidenote (footnoteRefs (simplePage [0, 0, 0, 0] [] 0 [])) 3
     \<lparr>sidenoteColumnLeft = [1], sidenoteColumnRight = [0, 2], hiddenSidenoteStorage = [3],
      styleTop = [], columnsVisible = False\<rparr>
   = Normal \<lparr>sidenoteColumnLeft = [1, 3], sidenoteColumnRight = [0, 2],
      hiddenSidenoteStorage = [], styleTop = [], columnsVisible = False\<rparr> \<and>
   parentElement \<lparr>sidenoteColumnLeft = [1, 3], sidenoteColumnRight = [0, 2],
      hiddenSidenoteStorage = [], styleTop = [], columnsVisible = False\<rparr> 3 = Some ColumnLeft"
proof -
  have m: "moveSidenote (footnoteRefs (simplePage [0, 0, 0, 0] [] 0 [])) 3
     \<lparr>sidenoteColumnLeft = [1], sidenoteColumnRight = [0, 2], hiddenSidenoteStorage = [3],
      styleTop = [], columnsVisible = False\<rparr>
   = Normal \<lparr>sidenoteColumnLeft = [1, 3], sidenoteColumnRight = [0, 2],
      hiddenSidenoteStorage = [], styleTop = [], columnsVisible = False\<rparr>"
    by code_simp
  have c: "\<not> isWithinCollapsedBlock (collapseBlocks (footnoteRefs (simplePage [0, 0, 0, 0] [] 0 []) ! 3))"
    by code_simp
  have s: "sideOf 3 = ColumnLeft"
    by code_simp
  show ?thesis
    using C3_side_by_parity [of 3 4 "[]" "footnoteRefs (simplePage [0, 0, 0, 0] [] 0 [])"
        "\<lparr>sidenoteColumnLeft = [1], sidenoteColumnRight = [0, 2], hiddenSidenoteStorage = [3],
          styleTop = [], columnsVisible = False\<rparr>"
        "\<lparr>sidenoteColumnLeft = [1, 3], sidenoteColumnRight = [0, 2],
          hiddenSidenoteStorage = [], styleTop = [], columnsVisible = False\<rparr>"] m c s
    by simp
qed

subsection \<open>Showing the columns\<close>

lemma moveSidenote_frame:
  "moveSidenote refs i d = Normal d' \<or> moveSidenote refs i d = Threw d'
    \<Longrightarrow> columnsVisible d' = columnsVisible d \<and> styleTop d' = styleTop d"
  by (cases "sideOf i")
    (auto simp add: moveSidenote_def Let_def appendChild_def insertBefore_def detach_def
       setChildren_def split: if_splits option.splits)

lemma moveSidenotes_frame:
  "moveSidenotes refs is d = Normal d' \<or> moveSidenotes refs is d = Threw d'
    \<Longrightarrow> columnsVisible d' = columnsVisible d \<and> styleTop d' = styleTop d"
proof (induction "is" arbitrary: d)
  case Nil
  then show ?case by simp
next
  case (Cons i "is")
  show ?case
  proof (cases "moveSidenote refs i d")
    case (Normal d1)
    with Cons.prems have "moveSidenotes refs is d1 = Normal d' \<or> moveSidenotes refs is d1 = Threw d'"
      by simp
    from Cons.IH [OF this] moveSidenote_frame [of refs i d d1] Normal
    show ?thesis by simp
  next
    case (Threw d1)
    with Cons.prems have "d1 = d'" by simp
    with moveSidenote_frame [of refs i d d1] Threw show ?thesis by simp
  qed
qed

lemma moveSidenotes_Normal_frame:
  "moveSidenotes refs is d = Normal d'
    \<Longrightarrow> columnsVisible d' = columnsVisible d \<and> styleTop d' = styleTop d"
  using moveSidenotes_frame by blast

lemma moveSidenotes_Threw_frame:
  "moveSidenotes refs is d = Threw d'
    \<Longrightarrow> columnsVisible d' = columnsVisible d \<and> styleTop d' = styleTop d"
  using moveSidenotes_frame by blast

lemma shown_only_on_completion:
  "updateSidenotePositions g d = Some (res, d', tr) \<Longrightarrow>
     (res = Completed \<longrightarrow> columnsVisible d') \<and>
     (res \<noteq> Completed \<longrightarrow> columnsVisible d' = columnsVisible d)"
  by (auto simp add: updateSidenotePositions_def updateSidenotesInCollapseBlocks_def Let_def
      split: if_splits outcome.splits option.splits
      dest: moveSidenotes_Normal_frame moveSidenotes_Threw_frame)

text \<open>
  Scenario B: one sidenote of height 300, columns of height 200, no overlapping
  element. Wherever the reference is, the engine gives up, and the columns, hidden
  since \<^verbatim>\<open>constructSidenotes\<close>, stay hidden.
\<close>

lemma scenario_B:
  "\<exists>d' tr. updateSidenotePositions (simplePage [a] [300] 200 []) (constructSidenotes 1 [t])
             = Some (GaveUp, d', tr) \<and> \<not> columnsVisible d'"
proof -
  let ?g = "simplePage [a] [300] 200 []"
  define d where "d = \<lparr>sidenoteColumnLeft = [], sidenoteColumnRight = [0::nat],
      hiddenSidenoteStorage = [], styleTop = [t], columnsVisible = False\<rparr>"
  have c: "constructSidenotes 1 [t] = d"
    by (simp add: constructSidenotes_eq sideOf_def d_def)
  have u: "updateSidenotesInCollapseBlocks (footnoteRefs ?g) d = Normal d"
    by (simp add: simplePage_def updateSidenotesInCollapseBlocks_def d_def moveSidenote_def
        sideOf_def nextSidenoteIndex.simps appendChild_def detach_def setChildren_def
        childrenOf_def Let_def)
  have i: "initialLayout ?g d = [a + 4]"
    by (simp add: simplePage_def initialLayout_def initialTop_def d_def parentElement_def
        defaultTop_def sideColumn_def sideOf_def)
  have p: "proscribedVerticalRanges ?g = [\<lparr>range_top = 200, range_bottom = 200\<rparr>]"
    by (simp add: proscribedVerticalRanges_def simplePage_def)
  have r: "roomOf ?g 0 x =
      (if x < 50
       then \<lparr>room_ceiling = 0, room_floor = 200, nextProscribedRangeAfterSidenote = 0\<rparr>
       else if x > 50
       then \<lparr>room_ceiling = 200, room_floor = 200, nextProscribedRangeAfterSidenote = - 1\<rparr>
       else \<lparr>room_ceiling = 0, room_floor = 200, nextProscribedRangeAfterSidenote = - 1\<rparr>)" for x
    unfolding roomOf_def p computeRoom_def
    by (simp add: narrowRoom_def halfwayPoint_def footprintTop_def footprintBottom_def
        sidenoteSpacing_def sideColumn_def sideOf_def Let_def simplePage_def)
  have h: "sidenoteHeights ?g = [300]" "length (footnoteRefs ?g) = 1"
    "viewportWidthBreakpoint ?g = False"
    by (simp_all add: simplePage_def)
  have pe: "parentElement (d\<lparr>styleTop := ts\<rparr>) 0 = Some ColumnRight" for ts
    by (simp add: d_def parentElement_def)
  have g1: "layoutRound ?g d0 0 [x] = (if x < 50 then Again [260] else GiveUp [x])" for x d0
    unfolding layoutRound_def r Let_def p
    by (simp add: footprintTop_def footprintBottom_def sidenoteSpacing_def h)
  have l1: "\<not> x < 50 \<Longrightarrow>
      layoutLoop ?g (d\<lparr>styleTop := ts\<rparr>) 0 [x] tr1 = Some (GaveUp, [x], tr1)" for x tr1 ts
    by (subst layoutLoop.simps) (simp add: h pe g1)
  have l2: "layoutLoop ?g (d\<lparr>styleTop := ts\<rparr>) 0 [x] tr1 =
      (if x < 50 then Some (GaveUp, [260], tr1 @ [(0, ExitAgain)])
       else Some (GaveUp, [x], tr1))" for x tr1 ts
    by (subst layoutLoop.simps) (simp add: h pe g1 l1)
  have v: "\<not> columnsVisible d" by (simp add: d_def)
  show ?thesis
    unfolding updateSidenotePositions_def c
    by (simp add: u h i l2 v)
qed

text \<open>
  C7: a run shows the columns exactly when the loop runs to its end; a run that gives
  up (or stops for any other reason) leaves their visibility as it was. In Scenario B
  (one sidenote of height 300, columns of height 200, only the bottom of the column
  as a proscribed range) the run gives up and the columns stay hidden.
\<close>

theorem C7_columns_shown_only_after_completion:
  "(updateSidenotePositions g d = Some (res, d', tr) \<longrightarrow>
      (res = Completed \<longrightarrow> columnsVisible d') \<and>
      (res \<noteq> Completed \<longrightarrow> columnsVisible d' = columnsVisible d)) \<and>
   (\<exists>d'' tr'. updateSidenotePositions (simplePage [a] [300] 200 []) (constructSidenotes 1 [t])
                = Some (GaveUp, d'', tr') \<and> \<not> columnsVisible d'')"
  using shown_only_on_completion [of g d res d' tr] scenario_B [of a t] by blast

theorem C7_columns_shown_only_after_completion_witness:
  "updateSidenotePositions (simplePage [0, 0, 40] [100, 100, 100] 10000 [])
     (constructSidenotes 3 [0, 0, 0])
   = Some (Completed,
       \<lparr>sidenoteColumnLeft = [1], sidenoteColumnRight = [0, 2], hiddenSidenoteStorage = [],
        styleTop = [60, 60, 220], columnsVisible = True\<rparr>,
       [(0, ExitPlaced), (1, ExitPlaced), (2, ExitPlaced)]) \<and>
   columnsVisible \<lparr>sidenoteColumnLeft = [1], sidenoteColumnRight = [0, 2],
        hiddenSidenoteStorage = [], styleTop = [60, 60, 220], columnsVisible = True\<rparr> \<and>
   updateSidenotePositions (simplePage [0] [300] 200 []) (constructSidenotes 1 [0])
   = Some (GaveUp,
       \<lparr>sidenoteColumnLeft = [], sidenoteColumnRight = [0], hiddenSidenoteStorage = [],
        styleTop = [260], columnsVisible = False\<rparr>, [(0, ExitAgain)]) \<and>
   columnsVisible \<lparr>sidenoteColumnLeft = [], sidenoteColumnRight = [0],
        hiddenSidenoteStorage = [], styleTop = [260], columnsVisible = False\<rparr>
     = columnsVisible (constructSidenotes 1 [0])"
proof -
  have a: "updateSidenotePositions (simplePage [0, 0, 40] [100, 100, 100] 10000 [])
     (constructSidenotes 3 [0, 0, 0])
   = Some (Completed,
       \<lparr>sidenoteColumnLeft = [1], sidenoteColumnRight = [0, 2], hiddenSidenoteStorage = [],
        styleTop = [60, 60, 220], columnsVisible = True\<rparr>,
       [(0, ExitPlaced), (1, ExitPlaced), (2, ExitPlaced)])"
    by code_simp
  have b: "updateSidenotePositions (simplePage [0] [300] 200 []) (constructSidenotes 1 [0])
   = Some (GaveUp,
       \<lparr>sidenoteColumnLeft = [], sidenoteColumnRight = [0], hiddenSidenoteStorage = [],
        styleTop = [260], columnsVisible = False\<rparr>, [(0, ExitAgain)])"
    by code_simp
  have c: "columnsVisible (constructSidenotes 1 [0]) = False"
    by (simp add: constructSidenotes_eq)
  from a
    C7_columns_shown_only_after_completion [of "simplePage [0, 0, 40] [100, 100, 100] 10000 []"
      "constructSidenotes 3 [0, 0, 0]" Completed _ _ 0 0]
  have "columnsVisible \<lparr>sidenoteColumnLeft = [1], sidenoteColumnRight = [0, 2],
        hiddenSidenoteStorage = [], styleTop = [60, 60, 220], columnsVisible = True\<rparr>"
    by blast
  with a b c show ?thesis by simp
qed

subsection \<open>What updateSidenotesInCollapseBlocks computes\<close>

lemma removeAll_filter_ge:
  "removeAll k (filter (\<lambda>j. k \<le> j) xs) = filter (\<lambda>j. Suc k \<le> j) (xs :: nat list)"
  by (induction xs) auto

lemma removeAll_filter_upt: "removeAll k (filter P [0..<k]) = filter P [0..<k]"
  by (simp add: removeAll_id)

lemma nextSidenoteIndex_props:
  "j \<le> nextSidenoteIndex d n j \<and> nextSidenoteIndex d n j mod 2 = j mod 2 \<and>
   (nextSidenoteIndex d n j < n \<longrightarrow> parentElement d (nextSidenoteIndex d n j) \<noteq> Some HiddenStorage) \<and>
   (\<forall>j'. j \<le> j' \<and> j' < nextSidenoteIndex d n j \<and> j' mod 2 = j mod 2
       \<longrightarrow> j' < n \<and> parentElement d j' = Some HiddenStorage)"
proof (induction d n j rule: nextSidenoteIndex.induct)
  case (1 d n j)
  show ?case
  proof (cases "j < n \<and> parentElement d j = Some HiddenStorage")
    case True
    then have eq: "nextSidenoteIndex d n j = nextSidenoteIndex d n (j + 2)"
      by (subst nextSidenoteIndex.simps) simp
    note IH = "1.IH" [OF True]
    have "j' < n \<and> parentElement d j' = Some HiddenStorage"
      if "j \<le> j'" "j' < nextSidenoteIndex d n (j + 2)" "j' mod 2 = j mod 2" for j'
    proof (cases "j' = j")
      case True
      with \<open>j < n \<and> parentElement d j = Some HiddenStorage\<close> show ?thesis by simp
    next
      case False
      have "j' \<noteq> j + 1" using that(3) by presburger
      with False that have "j + 2 \<le> j'" by simp
      moreover from that have "j' mod 2 = (j + 2) mod 2" by simp
      ultimately show ?thesis using IH that by blast
    qed
    moreover from IH have "j \<le> nextSidenoteIndex d n (j + 2)" by simp
    moreover from IH have "nextSidenoteIndex d n (j + 2) mod 2 = j mod 2" by simp
    ultimately show ?thesis unfolding eq using IH by blast
  next
    case False
    then have eq: "nextSidenoteIndex d n j = j"
      by (subst nextSidenoteIndex.simps) auto
    show ?thesis unfolding eq using False by auto
  qed
qed

lemma sideOf_mod: "sideOf i = sideOf j \<longleftrightarrow> i mod 2 = j mod 2"
  by (simp add: sideOf_def)

lemma moveSidenotes_append:
  "moveSidenotes refs (xs @ ys) d =
     (case moveSidenotes refs xs d of Normal d' \<Rightarrow> moveSidenotes refs ys d' | Threw d' \<Rightarrow> Threw d')"
  by (induction xs arbitrary: d) (auto split: outcome.splits)

lemma sorted_head_least:
  "sorted_wrt (<) (xs :: nat list) \<Longrightarrow> x \<in> set xs \<Longrightarrow> \<forall>y \<in> set xs. x \<le> y \<Longrightarrow> \<exists>ys. xs = x # ys"
  by (cases xs) auto

lemma insertBeforeIn_head:
  "ref \<notin> set as \<Longrightarrow> insertBeforeIn x ref (as @ ref # bs) = as @ x # ref # bs"
  by (induction as) (auto simp add: insertBeforeIn_def)

lemma classifiedUpTo_step:
  assumes ok: "dom_ok n d" and n: "n = length refs" and k: "k < n"
  shows "moveSidenote refs k (classifiedUpTo refs k d) = Normal (classifiedUpTo refs (Suc k) d)"
proof -
  let ?p = "classifiedUpTo refs k d"
  let ?L = "sidenoteColumnLeft d" and ?R = "sidenoteColumnRight d" and ?H = "hiddenSidenoteStorage d"
  have hid: "parentElement ?p j = Some HiddenStorage \<longleftrightarrow> j \<in> set ?H" if "k \<le> j" for j
    using that by (auto simp add: parentElement_def classifiedUpTo_def)
  show ?thesis
  proof (cases "collapsed refs k")
    case True
    then show ?thesis
      by (simp add: moveSidenote_def collapsed_def [symmetric] appendChild_def detach_def Let_def
          setChildren_def childrenOf_def classifiedUpTo_def removeAll_filter_ge removeAll_filter_upt
          displayedOn_def)
  next
    case False
    define nx where "nx = nextSidenoteIndex ?p (length refs) (k + 2)"
    note props = nextSidenoteIndex_props [of "k + 2" ?p "length refs", folded nx_def]
    define c where "c = sideOf k"
    let ?xs = "childrenOf d c"
    have c_cases: "c = ColumnLeft \<or> c = ColumnRight"
      using sideOf_cases [of k] by (simp add: c_def)
    have xs_side: "sideOf y = c \<and> y \<notin> set ?H \<and> y < n" if "y \<in> set ?xs" for y
      using ok that c_cases unfolding dom_ok_def childrenOf_def by auto
    have xs_sorted: "sorted_wrt (<) ?xs"
      using ok c_cases unfolding dom_ok_def childrenOf_def by auto
    have least: "nx \<le> y" if "y \<in> set ?xs" "k < y" for y
    proof (rule ccontr)
      assume "\<not> nx \<le> y"
      then have lt: "y < nx" by simp
      from xs_side [OF that(1)] have "y mod 2 = k mod 2" by (simp add: c_def sideOf_mod)
      then have m: "y mod 2 = (k + 2) mod 2" by simp
      have "y \<noteq> k + 1" using \<open>y mod 2 = k mod 2\<close> by presburger
      with that(2) have "k + 2 \<le> y" by simp
      with props lt m have "parentElement ?p y = Some HiddenStorage" by blast
      with hid [of y] that(2) have "y \<in> set ?H" by simp
      with xs_side [OF that(1)] show False by simp
    qed
    have tail: "filter (\<lambda>j. Suc k \<le> j) ?xs = (if nx < n then nx # filter (\<lambda>j. Suc nx \<le> j) ?xs else [])"
    proof (cases "nx < n")
      case True
      with props have "parentElement ?p nx \<noteq> Some HiddenStorage" by (simp add: n)
      moreover from props have knx: "k + 2 \<le> nx" by simp
      ultimately have "nx \<notin> set ?H" using hid [of nx] by simp
      with ok True have "nx \<in> set ?L \<union> set ?R" unfolding dom_ok_def by auto
      moreover have "sideOf nx = c"
        using props by (simp add: c_def sideOf_mod)
      ultimately have mem: "nx \<in> set ?xs"
        using ok c_cases unfolding dom_ok_def childrenOf_def by auto
      have "sorted_wrt (<) (filter (\<lambda>j. Suc k \<le> j) ?xs)"
        using xs_sorted by (rule sorted_wrt_filter)
      moreover have "nx \<in> set (filter (\<lambda>j. Suc k \<le> j) ?xs)" using mem knx by simp
      moreover have "\<forall>y \<in> set (filter (\<lambda>j. Suc k \<le> j) ?xs). nx \<le> y" using least by auto
      ultimately obtain ys where ys: "filter (\<lambda>j. Suc k \<le> j) ?xs = nx # ys"
        using sorted_head_least by blast
      have "filter (\<lambda>j. Suc nx \<le> j) ?xs = filter (\<lambda>j. Suc nx \<le> j) (filter (\<lambda>j. Suc k \<le> j) ?xs)"
        using knx by (auto intro: filter_cong)
      also have "\<dots> = filter (\<lambda>j. Suc nx \<le> j) ys" unfolding ys by simp
      also have "\<dots> = ys"
      proof -
        from \<open>sorted_wrt (<) (filter (\<lambda>j. Suc k \<le> j) ?xs)\<close> have "\<forall>y \<in> set ys. nx < y"
          unfolding ys by simp
        then show ?thesis by (simp add: filter_id_conv Suc_le_eq)
      qed
      finally show ?thesis using True ys by simp
    next
      case False
      have "filter (\<lambda>j. Suc k \<le> j) ?xs = []"
      proof (rule ccontr)
        assume "filter (\<lambda>j. Suc k \<le> j) ?xs \<noteq> []"
        then obtain y where "y \<in> set ?xs" "k < y"
          by (metis (mono_tags, lifting) Suc_le_lessD filter_empty_conv)
        with least [of y] xs_side [of y] False show False by simp
      qed
      with False show ?thesis by simp
    qed
    have det: "detach k ?p = d\<lparr>sidenoteColumnLeft :=
         filter (displayedOn refs ColumnLeft) [0..<k] @ filter (\<lambda>j. Suc k \<le> j) ?L,
       sidenoteColumnRight :=
         filter (displayedOn refs ColumnRight) [0..<k] @ filter (\<lambda>j. Suc k \<le> j) ?R,
       hiddenSidenoteStorage := filter (\<lambda>j. Suc k \<le> j) ?H @ filter (collapsed refs) [0..<k]\<rparr>"
      by (simp add: detach_def classifiedUpTo_def removeAll_filter_ge removeAll_filter_upt)
    have disp: "displayedOn refs c k" "c' \<noteq> c \<Longrightarrow> \<not> displayedOn refs c' k" for c'
      using False by (auto simp add: displayedOn_def c_def)
    have nxk: "k < nx"
      using props by auto
    show ?thesis
    proof (cases "nx < n")
      case True
      with tail have t: "filter (\<lambda>j. Suc k \<le> j) ?xs = nx # filter (\<lambda>j. Suc nx \<le> j) ?xs" by simp
      then have "nx \<in> set (filter (\<lambda>j. Suc k \<le> j) ?xs)" by simp
      then have mem: "nx \<in> set (childrenOf ?p c)"
        using c_cases by (auto simp add: childrenOf_def classifiedUpTo_def)
      have res: "moveSidenote refs k ?p =
          Normal (setChildren c (insertBeforeIn k nx (childrenOf (detach k ?p) c)) (detach k ?p))"
        using mem True False
        unfolding moveSidenote_def collapsed_def [symmetric] nx_def [symmetric] c_def [symmetric] Let_def
        by (simp add: n insertBefore_def Let_def)
      from c_cases show ?thesis
      proof
        assume cl: "c = ColumnLeft"
        with t disp nxk False show ?thesis
          unfolding res det
          by (simp add: childrenOf_def setChildren_def insertBeforeIn_head classifiedUpTo_def)
      next
        assume cr: "c = ColumnRight"
        with t disp nxk False show ?thesis
          unfolding res det
          by (simp add: childrenOf_def setChildren_def insertBeforeIn_head classifiedUpTo_def)
      qed
    next
      case nlt: False
      with tail have t: "filter (\<lambda>j. Suc k \<le> j) ?xs = []" by simp
      have res: "moveSidenote refs k ?p =
          Normal (setChildren c (childrenOf (detach k ?p) c @ [k]) (detach k ?p))"
        using nlt False
        unfolding moveSidenote_def collapsed_def [symmetric] nx_def [symmetric] c_def [symmetric] Let_def
        by (simp add: n appendChild_def Let_def)
      from c_cases show ?thesis
      proof
        assume cl: "c = ColumnLeft"
        with t disp nxk False show ?thesis
          unfolding res det
          by (simp add: childrenOf_def setChildren_def classifiedUpTo_def)
      next
        assume cr: "c = ColumnRight"
        with t disp nxk False show ?thesis
          unfolding res det
          by (simp add: childrenOf_def setChildren_def classifiedUpTo_def)
      qed
    qed
  qed
qed

lemma classifiedUpTo_0: "dom_ok n d \<Longrightarrow> classifiedUpTo refs 0 d = d"
  by (simp add: classifiedUpTo_def)

lemma classifiedUpTo_all:
  "dom_ok (length refs) d \<Longrightarrow> classifiedUpTo refs (length refs) d = classified refs d"
proof -
  assume ok: "dom_ok (length refs) d"
  have "filter (\<lambda>j. length refs \<le> j) xs = []" if "set xs \<subseteq> {0..<length refs}" for xs
    using that by (auto simp add: filter_empty_conv)
  moreover from ok have "set (sidenoteColumnLeft d) \<subseteq> {0..<length refs}"
    "set (sidenoteColumnRight d) \<subseteq> {0..<length refs}"
    "set (hiddenSidenoteStorage d) \<subseteq> {0..<length refs}"
    unfolding dom_ok_def by auto
  ultimately show ?thesis by (simp add: classifiedUpTo_def classified_def)
qed

lemma moveSidenotes_upto:
  "dom_ok n d \<Longrightarrow> n = length refs \<Longrightarrow> k \<le> n
    \<Longrightarrow> moveSidenotes refs [0..<k] d = Normal (classifiedUpTo refs k d)"
proof (induction k)
  case 0
  then show ?case by (simp add: classifiedUpTo_0)
next
  case (Suc k)
  then show ?case
    by (simp add: moveSidenotes_append classifiedUpTo_step)
qed

lemma updateSidenotesInCollapseBlocks_classified:
  "dom_ok (length refs) d \<Longrightarrow> updateSidenotesInCollapseBlocks refs d = Normal (classified refs d)"
  by (simp add: updateSidenotesInCollapseBlocks_def moveSidenotes_upto classifiedUpTo_all)

lemma dom_ok_classified: "dom_ok (length refs) d \<Longrightarrow> dom_ok (length refs) (classified refs d)"
  unfolding dom_ok_def classified_def using sideOf_cases
  by (auto simp add: sorted_filter_upt displayedOn_def)

lemma classified_idem: "classified refs (classified refs d) = classified refs d"
  by (simp add: classified_def)

subsection \<open>Reasoning about the loop\<close>

text \<open>An invariant of the rounds holds where the loop stops.\<close>

lemma layoutLoop_rule:
  assumes run: "layoutLoop g d i tops tr = Some (res, tops', tr')"
    and inv: "I i tops tr"
    and hid: "\<And>i tops tr. I i tops tr \<Longrightarrow> i < length (footnoteRefs g) \<Longrightarrow>
               parentElement d i = Some HiddenStorage \<Longrightarrow> I (i + 1) tops tr"
    and placed: "\<And>i tops tr tops1. I i tops tr \<Longrightarrow> i < length (footnoteRefs g) \<Longrightarrow>
               parentElement d i \<noteq> Some HiddenStorage \<Longrightarrow> layoutRound g d i tops = Placed tops1
               \<Longrightarrow> I (i + 1) tops1 (tr @ [(i, ExitPlaced)])"
    and left: "\<And>i tops tr tops1. I i tops tr \<Longrightarrow> i < length (footnoteRefs g) \<Longrightarrow>
               parentElement d i \<noteq> Some HiddenStorage \<Longrightarrow> layoutRound g d i tops = LeftAlone tops1
               \<Longrightarrow> I (i + 1) tops1 (tr @ [(i, ExitLeftAlone)])"
    and again: "\<And>i tops tr tops1. I i tops tr \<Longrightarrow> i < length (footnoteRefs g) \<Longrightarrow>
               parentElement d i \<noteq> Some HiddenStorage \<Longrightarrow> layoutRound g d i tops = Again tops1
               \<Longrightarrow> I i tops1 (tr @ [(i, ExitAgain)])"
  shows "\<exists>k topsK. I k topsK tr' \<and>
           (if res = Completed then length (footnoteRefs g) \<le> k \<and> topsK = tops'
            else k < length (footnoteRefs g) \<and> parentElement d k \<noteq> Some HiddenStorage \<and>
              (res = GaveUp \<and> layoutRound g d k topsK = GiveUp tops' \<or>
               res = Exception \<and> layoutRound g d k topsK = TypeError tops'))"
proof -
  let ?n = "length (footnoteRefs g)"
  define Post where "Post = (\<lambda>y. case y of (res, tops', tr') \<Rightarrow> (\<exists>k topsK. I k topsK tr' \<and>
           (if res = Completed then ?n \<le> k \<and> topsK = tops'
            else k < ?n \<and> parentElement d k \<noteq> Some HiddenStorage \<and>
              (res = GaveUp \<and> layoutRound g d k topsK = GiveUp tops' \<or>
               res = Exception \<and> layoutRound g d k topsK = TypeError tops'))))"
  have "g' = g \<and> d' = d \<and> I i tops tr \<longrightarrow> Post y"
    if "layoutLoop g' d' i tops tr = Some y" for g' d' i tops tr y
  proof (rule layoutLoop.raw_induct
      [where P = "\<lambda>g' d' i tops tr y. g' = g \<and> d' = d \<and> I i tops tr \<longrightarrow> Post y", OF _ that],
      goal_cases)
    case (1 f g' d' i tops tr y)
    show ?case
    proof (intro impI, elim conjE)
      assume eq: "g' = g" "d' = d" and I: "I i tops tr"
      note body = 1(2) [unfolded eq]
      have IH: "f g d i tops tr = Some y \<Longrightarrow> I i tops tr \<Longrightarrow> Post y" for i tops tr y
        using 1(1) [of g d i tops tr y] by simp
      show "Post y"
      proof (cases "?n \<le> i")
        case True
        with body I show ?thesis by (auto simp add: Post_def)
      next
        case False
        then have lt: "i < ?n" by simp
        show ?thesis
        proof (cases "parentElement d i = Some HiddenStorage")
          case True
          with body lt have "f g d (i + 1) tops tr = Some y" by simp
          from IH [OF this hid [OF I lt True]] show ?thesis .
        next
          case nh: False
          show ?thesis
          proof (cases "layoutRound g d i tops")
            case (Placed t1)
            with body lt nh have "f g d (i + 1) t1 (tr @ [(i, ExitPlaced)]) = Some y" by simp
            from IH [OF this placed [OF I lt nh Placed]] show ?thesis .
          next
            case (LeftAlone t1)
            with body lt nh have "f g d (i + 1) t1 (tr @ [(i, ExitLeftAlone)]) = Some y" by simp
            from IH [OF this left [OF I lt nh LeftAlone]] show ?thesis .
          next
            case (Again t1)
            with body lt nh have "f g d i t1 (tr @ [(i, ExitAgain)]) = Some y" by simp
            from IH [OF this again [OF I lt nh Again]] show ?thesis .
          next
            case (GiveUp t1)
            with body lt nh have "y = (GaveUp, t1, tr)" by simp
            with I lt nh GiveUp show ?thesis by (auto simp add: Post_def)
          next
            case (TypeError t1)
            with body lt nh have "y = (Exception, t1, tr)" by simp
            with I lt nh TypeError show ?thesis by (auto simp add: Post_def)
          qed
        qed
      qed
    qed
  qed
  from this [OF run] inv show ?thesis by (simp add: Post_def)
qed

lemma find_filter: "find P xs = (case filter P xs of [] \<Rightarrow> None | z # _ \<Rightarrow> Some z)"
  by (induction xs) auto

lemma nextIn_append:
  "x \<notin> set as \<Longrightarrow> nextIn (as @ x # ys) x = (case ys of [] \<Rightarrow> None | z # _ \<Rightarrow> Some z)"
proof (induction as)
  case Nil
  then show ?case by (cases ys) auto
next
  case (Cons a as)
  then show ?case by (cases as) auto
qed

lemma previousIn_notin: "x \<notin> set ys \<Longrightarrow> previousIn ys x = None"
  by (induction ys x rule: previousIn.induct) auto

lemma previousIn_append:
  "x \<notin> set as \<Longrightarrow> x \<notin> set ys \<Longrightarrow>
     previousIn (as @ x # ys) x = (if as = [] then None else Some (last as))"
proof (induction as)
  case Nil
  then show ?case by (cases ys) (auto simp add: previousIn_notin)
next
  case (Cons a as)
  then show ?case by (cases as) auto
qed

lemma filter_upt_split:
  "i < n \<Longrightarrow> P i \<Longrightarrow> filter P [0..<n] = filter P [0..<i] @ i # filter P [Suc i..<n]"
proof -
  assume "i < n" "P i"
  then have "[0..<n] = [0..<i] @ i # [Suc i..<n]"
    by (metis upt_add_eq_append upt_conv_Cons le_add_diff_inverse less_imp_le_nat zero_le plus_nat.add_0)
  with \<open>P i\<close> show ?thesis by simp
qed

lemma nextIn_filter_upt:
  "i < n \<Longrightarrow> P i \<Longrightarrow> nextIn (filter P [0..<n]) i = find P [Suc i..<n]"
  by (simp add: filter_upt_split nextIn_append find_filter)

lemma parentElement_classified:
  "i < length refs \<Longrightarrow> parentElement (classified refs d) i =
     Some (if collapsed refs i then HiddenStorage else sideOf i)"
  using sideOf_cases [of i]
  by (auto simp add: parentElement_def classified_def displayedOn_def)

lemma nextElementSibling_classified:
  "i < length refs \<Longrightarrow> \<not> collapsed refs i \<Longrightarrow>
     nextElementSibling (classified refs d) i = nextDisplayed refs i"
  unfolding nextElementSibling_def
  using sideOf_cases [of i]
  by (auto simp add: parentElement_classified)
     (simp_all add: childrenOf_def nextDisplayed_def classified_def nextIn_filter_upt displayedOn_def)

text \<open>
  C9: from a well-formed tree, \<^verbatim>\<open>updateSidenotesInCollapseBlocks\<close> ends with every
  sidenote whose reference is within a collapsed block in the hidden storage, every
  other sidenote in the column of its side, immediately before the next displayed
  sidenote of that side (the last child when there is none), and the children of
  each column in the order of their indices.
\<close>

theorem C9_reclassification_keeps_column_order:
  assumes "dom_ok (length refs) d"
  shows "\<exists>d'. updateSidenotesInCollapseBlocks refs d = Normal d' \<and>
     (\<forall>i < length refs. collapsed refs i \<longrightarrow> parentElement d' i = Some HiddenStorage) \<and>
     (\<forall>i < length refs. \<not> collapsed refs i \<longrightarrow>
          parentElement d' i = Some (sideOf i) \<and> nextElementSibling d' i = nextDisplayed refs i) \<and>
     sorted_wrt (<) (sidenoteColumnLeft d') \<and> sorted_wrt (<) (sidenoteColumnRight d')"
  using updateSidenotesInCollapseBlocks_classified [OF assms] dom_ok_classified [OF assms]
  by (simp add: parentElement_classified nextElementSibling_classified dom_ok_def)

theorem C9_reclassification_keeps_column_order_witness:
  "dom_ok (length exampleRefs) (constructSidenotes 6 [0, 0, 0, 0, 0, 0]) \<and>
   updateSidenotesInCollapseBlocks exampleRefs (constructSidenotes 6 [0, 0, 0, 0, 0, 0])
     = Normal \<lparr>sidenoteColumnLeft = [1, 3, 5], sidenoteColumnRight = [0],
         hiddenSidenoteStorage = [2, 4], styleTop = [0, 0, 0, 0, 0, 0], columnsVisible = False\<rparr> \<and>
   collapsed exampleRefs 2 \<and>
   parentElement \<lparr>sidenoteColumnLeft = [1, 3, 5], sidenoteColumnRight = [0],
         hiddenSidenoteStorage = [2, 4], styleTop = [0, 0, 0, 0, 0, 0], columnsVisible = False\<rparr> 2
     = Some HiddenStorage \<and>
   \<not> collapsed exampleRefs 3 \<and>
   parentElement \<lparr>sidenoteColumnLeft = [1, 3, 5], sidenoteColumnRight = [0],
         hiddenSidenoteStorage = [2, 4], styleTop = [0, 0, 0, 0, 0, 0], columnsVisible = False\<rparr> 3
     = Some (sideOf 3) \<and>
   nextElementSibling \<lparr>sidenoteColumnLeft = [1, 3, 5], sidenoteColumnRight = [0],
         hiddenSidenoteStorage = [2, 4], styleTop = [0, 0, 0, 0, 0, 0], columnsVisible = False\<rparr> 3
     = nextDisplayed exampleRefs 3 \<and>
   nextDisplayed exampleRefs 3 = Some 5 \<and>
   sorted_wrt (<) (sidenoteColumnLeft \<lparr>sidenoteColumnLeft = [1, 3, 5], sidenoteColumnRight = [0],
         hiddenSidenoteStorage = [2, 4], styleTop = [0, 0, 0, 0, 0, 0], columnsVisible = False\<rparr>)"
proof -
  let ?d = "constructSidenotes 6 [0, 0, 0, 0, 0, 0]"
  let ?d' = "\<lparr>sidenoteColumnLeft = [1, 3, 5], sidenoteColumnRight = [0],
         hiddenSidenoteStorage = [2, 4], styleTop = [0, 0, 0, 0, 0, 0], columnsVisible = False\<rparr>"
  have len: "length exampleRefs = 6"
    by (simp add: exampleRefs_def)
  have ok: "dom_ok (length exampleRefs) ?d"
    unfolding len by (rule dom_ok_constructSidenotes) simp
  have ev: "updateSidenotesInCollapseBlocks exampleRefs ?d = Normal ?d'"
    by code_simp
  have c2: "collapsed exampleRefs 2" and c3: "\<not> collapsed exampleRefs 3"
    by code_simp+
  have nd: "nextDisplayed exampleRefs 3 = Some 5"
    by code_simp
  have i: "(2::nat) < length exampleRefs" "(3::nat) < length exampleRefs"
    unfolding len by simp_all
  from C9_reclassification_keeps_column_order [OF ok] ev
  have all: "(\<forall>i < length exampleRefs. collapsed exampleRefs i \<longrightarrow>
                 parentElement ?d' i = Some HiddenStorage) \<and>
     (\<forall>i < length exampleRefs. \<not> collapsed exampleRefs i \<longrightarrow>
          parentElement ?d' i = Some (sideOf i) \<and>
          nextElementSibling ?d' i = nextDisplayed exampleRefs i) \<and>
     sorted_wrt (<) (sidenoteColumnLeft ?d')"
    by auto
  from all i(1) c2 have h: "parentElement ?d' 2 = Some HiddenStorage"
    by blast
  from all i(2) c3 have s: "parentElement ?d' 3 = Some (sideOf 3)"
    "nextElementSibling ?d' 3 = nextDisplayed exampleRefs 3"
    by blast+
  from all have srt: "sorted_wrt (<) (sidenoteColumnLeft ?d')"
    by blast
  from ok ev c2 h c3 s nd srt show ?thesis
    by blast
qed

subsection \<open>What a round may change, and siblings in a well-formed tree\<close>

lemma resolveOverlapBelow_frame:
  "length (roundTops (resolveOverlapBelow g d i r tops a b c e f)) = length tops \<and>
   (\<forall>j. j \<noteq> i \<longrightarrow> nextElementSibling d i \<noteq> Some j \<longrightarrow>
      roundTops (resolveOverlapBelow g d i r tops a b c e f) ! j = tops ! j)"
  by (simp add: resolveOverlapBelow_def Let_def split: option.splits)

lemma placeInRoom_frame:
  "length (roundTops (placeInRoom g d i r tops)) = length tops \<and>
   (\<forall>j. j \<noteq> i \<longrightarrow> nextElementSibling d i \<noteq> Some j \<longrightarrow>
      roundTops (placeInRoom g d i r tops) ! j = tops ! j)"
  unfolding placeInRoom_def Let_def
  by (simp add: resolveOverlapBelow_frame)

lemma layoutRound_frame:
  "length (roundTops (layoutRound g d i tops)) = length tops \<and>
   (\<forall>j. j \<noteq> i \<longrightarrow> nextElementSibling d i \<noteq> Some j \<longrightarrow>
      roundTops (layoutRound g d i tops) ! j = tops ! j)"
  unfolding layoutRound_def Let_def
  by (simp add: placeInRoom_frame)

lemma nextIn_sorted:
  "sorted_wrt (<) xs \<Longrightarrow> nextIn xs x = Some y \<Longrightarrow>
     x \<in> set xs \<and> y \<in> set xs \<and> x < y \<and> previousIn xs y = Some x"
proof (induction xs x rule: nextIn.induct)
  case (3 y0 z ys x)
  show ?case
  proof (cases "y0 = x")
    case True
    with 3 show ?thesis by auto
  next
    case False
    with "3.prems" have nx: "nextIn (z # ys) x = Some y" by simp
    from "3.prems" have "sorted_wrt (<) (z # ys)" by simp
    from "3.IH" [OF False this nx]
    have IH: "x \<in> set (z # ys)" "y \<in> set (z # ys)" "x < y" "previousIn (z # ys) y = Some x"
      by simp_all
    from "3.prems"(1) IH(1) have "z \<le> x" by auto
    with IH(3) have "z \<noteq> y" by simp
    with IH show ?thesis by simp
  qed
qed simp_all

lemma previousIn_sorted:
  "sorted_wrt (<) xs \<Longrightarrow> previousIn xs y = Some x \<Longrightarrow>
     x \<in> set xs \<and> y \<in> set xs \<and> x < y \<and> nextIn xs x = Some y"
proof (induction xs y rule: previousIn.induct)
  case (3 y0 z ys y)
  show ?case
  proof (cases "z = y")
    case True
    with 3 show ?thesis by auto
  next
    case False
    with "3.prems" have pv: "previousIn (z # ys) y = Some x" by simp
    from "3.prems" have "sorted_wrt (<) (z # ys)" by simp
    from "3.IH" [OF False this pv]
    have IH: "x \<in> set (z # ys)" "y \<in> set (z # ys)" "x < y" "nextIn (z # ys) x = Some y"
      by simp_all
    from "3.prems"(1) IH(1) have "y0 < x" by auto
    then have "y0 \<noteq> x" by simp
    with IH show ?thesis by simp
  qed
qed simp_all

lemma dom_ok_parent:
  assumes "dom_ok n d"
  shows "parentElement d i = Some c \<longleftrightarrow> i \<in> set (childrenOf d c)"
  using assms sideOf_cases [of i] unfolding dom_ok_def parentElement_def childrenOf_def
  by (cases c) auto

lemma dom_ok_children:
  assumes "dom_ok n d" "i \<in> set (childrenOf d c)"
  shows "i < n" "c \<noteq> HiddenStorage \<Longrightarrow> sideOf i = c" "c \<noteq> HiddenStorage \<Longrightarrow> sorted_wrt (<) (childrenOf d c)"
  using assms unfolding dom_ok_def childrenOf_def
  by (cases c; auto)+

lemma dom_ok_next:
  assumes ok: "dom_ok n d" and disp: "parentElement d i \<noteq> Some HiddenStorage"
    and nx: "nextElementSibling d i = Some j"
  shows "i < j" "j < n" "i < n" "parentElement d j \<noteq> Some HiddenStorage"
    "previousElementSibling d j = Some i"
proof -
  from nx obtain c where c: "parentElement d i = Some c" "nextIn (childrenOf d c) i = Some j"
    by (auto simp add: nextElementSibling_def split: option.splits)
  with disp have ch: "c \<noteq> HiddenStorage" by auto
  from c(1) have mem: "i \<in> set (childrenOf d c)" by (simp add: dom_ok_parent [OF ok])
  from nextIn_sorted [OF dom_ok_children(3) [OF ok mem ch] c(2)]
  have *: "j \<in> set (childrenOf d c)" "i < j" "previousIn (childrenOf d c) j = Some i" by simp_all
  then have pj: "parentElement d j = Some c" by (simp add: dom_ok_parent [OF ok])
  show "i < j" by fact
  show "j < n" using dom_ok_children(1) [OF ok *(1)] .
  show "i < n" using dom_ok_children(1) [OF ok mem] .
  show "parentElement d j \<noteq> Some HiddenStorage" using pj ch by simp
  show "previousElementSibling d j = Some i" using pj * by (simp add: previousElementSibling_def)
qed

lemma dom_ok_previous:
  assumes ok: "dom_ok n d" and disp: "parentElement d i \<noteq> Some HiddenStorage"
    and pv: "previousElementSibling d i = Some p"
  shows "p < i" "p < n" "parentElement d p \<noteq> Some HiddenStorage"
    "nextElementSibling d p = Some i"
proof -
  from pv obtain c where c: "parentElement d i = Some c" "previousIn (childrenOf d c) i = Some p"
    by (auto simp add: previousElementSibling_def split: option.splits)
  with disp have ch: "c \<noteq> HiddenStorage" by auto
  from c(1) have mem: "i \<in> set (childrenOf d c)" by (simp add: dom_ok_parent [OF ok])
  from previousIn_sorted [OF dom_ok_children(3) [OF ok mem ch] c(2)]
  have *: "p \<in> set (childrenOf d c)" "p < i" "nextIn (childrenOf d c) p = Some i" by simp_all
  then have pj: "parentElement d p = Some c" by (simp add: dom_ok_parent [OF ok])
  show "p < i" by fact
  show "p < n" using dom_ok_children(1) [OF ok *(1)] .
  show "parentElement d p \<noteq> Some HiddenStorage" using pj ch by simp
  show "nextElementSibling d p = Some i" using pj * by (simp add: nextElementSibling_def)
qed

lemma initialLayout_upto:
  "k \<le> length tops \<Longrightarrow>
   foldl (initialTop g d) tops [0..<k] =
     map (\<lambda>i. if parentElement d i = Some HiddenStorage then tops ! i else defaultTop g i) [0..<k]
     @ drop k tops"
proof (induction k)
  case 0
  then show ?case by simp
next
  case (Suc k)
  then have k: "k < length tops" by simp
  let ?f = "\<lambda>i. if parentElement d i = Some HiddenStorage then tops ! i else defaultTop g i"
  have "foldl (initialTop g d) tops [0..<Suc k] = initialTop g d (map ?f [0..<k] @ drop k tops) k"
    using Suc by simp
  also have "\<dots> = map ?f [0..<Suc k] @ drop (Suc k) tops"
    using k by (simp add: initialTop_def list_update_append Cons_nth_drop_Suc [symmetric])
  finally show ?case .
qed

lemma initialLayout_eq:
  "length (styleTop d) = length (footnoteRefs g) \<Longrightarrow>
   initialLayout g d =
     map (\<lambda>i. if parentElement d i = Some HiddenStorage then styleTop d ! i else defaultTop g i)
       [0..<length (footnoteRefs g)]"
  by (simp add: initialLayout_def initialLayout_upto)

subsection \<open>The loop reads only the tree, and leaves hidden sidenotes alone\<close>

lemma sameTree_parentElement: "sameTree d d' \<Longrightarrow> parentElement d i = parentElement d' i"
  by (simp add: sameTree_def parentElement_def)

lemma sameTree_siblings:
  "sameTree d d' \<Longrightarrow> nextElementSibling d i = nextElementSibling d' i \<and>
     previousElementSibling d i = previousElementSibling d' i"
  by (simp add: sameTree_def parentElement_def nextElementSibling_def previousElementSibling_def
      childrenOf_def)

lemma sameTree_layoutRound: "sameTree d d' \<Longrightarrow> layoutRound g d i tops = layoutRound g d' i tops"
  by (simp add: layoutRound_def placeInRoom_def resolveOverlapBelow_def Let_def
      sameTree_siblings [of d d'])

lemma sameTree_layoutLoop_Some:
  assumes st: "sameTree d d'" and run: "layoutLoop g d i tops tr = Some y"
  shows "layoutLoop g d' i tops tr = Some y"
proof -
  have "g0 = g \<and> d0 = d \<longrightarrow> layoutLoop g d' i tops tr = Some y"
    if "layoutLoop g0 d0 i tops tr = Some y" for g0 d0 i tops tr y
  proof (rule layoutLoop.raw_induct
      [where P = "\<lambda>g0 d0 i tops tr y. g0 = g \<and> d0 = d \<longrightarrow> layoutLoop g d' i tops tr = Some y",
        OF _ that], goal_cases)
    case (1 f g0 d0 i tops tr y)
    show ?case
    proof (intro impI, elim conjE)
      assume eq: "g0 = g" "d0 = d"
      note body = 1(2) [unfolded eq]
      have IH: "f g d i tops tr = Some y \<Longrightarrow> layoutLoop g d' i tops tr = Some y" for i tops tr y
        using 1(1) [of g d i tops tr y] by simp
      show "layoutLoop g d' i tops tr = Some y"
        using body IH
        by (subst layoutLoop.simps)
          (auto simp add: sameTree_parentElement [OF st, symmetric]
            sameTree_layoutRound [OF st, symmetric] split: if_splits round.splits)
    qed
  qed
  from this [OF run] show ?thesis by simp
qed

lemma sameTree_layoutLoop:
  assumes "sameTree d d'"
  shows "layoutLoop g d i tops tr = layoutLoop g d' i tops tr"
proof (cases "layoutLoop g d i tops tr")
  case None
  show ?thesis
  proof (cases "layoutLoop g d' i tops tr")
    case (Some y)
    from assms have "sameTree d' d" by (simp add: sameTree_def)
    from sameTree_layoutLoop_Some [OF this Some] None show ?thesis by simp
  qed (simp add: None)
next
  case (Some y)
  with sameTree_layoutLoop_Some [OF assms Some] show ?thesis by simp
qed

lemma dom_ok_sameTree:
  "dom_ok n d \<Longrightarrow> sameTree d d' \<Longrightarrow> length (styleTop d') = n \<Longrightarrow> dom_ok n d'"
  by (simp add: dom_ok_def sameTree_def)

lemma layoutLoop_frame:
  assumes ok: "dom_ok n d" and n: "n = length (footnoteRefs g)" and len: "length tops = n"
    and run: "layoutLoop g d i tops tr = Some (res, tops', tr')"
  shows "length tops' = n \<and> (\<forall>j. parentElement d j = Some HiddenStorage \<longrightarrow> tops' ! j = tops ! j)"
proof -
  define I where "I = (\<lambda>(i::nat) t (tr::(nat \<times> exit) list). length t = n \<and>
      (\<forall>j. parentElement d j = Some HiddenStorage \<longrightarrow> t ! j = tops ! j))"
  have step: "I k (roundTops (layoutRound g d i t)) tr2"
    if "I i t tr1" "parentElement d i \<noteq> Some HiddenStorage" for i k t tr1 tr2
  proof -
    have "roundTops (layoutRound g d i t) ! j = t ! j" if h: "parentElement d j = Some HiddenStorage" for j
    proof -
      from h \<open>parentElement d i \<noteq> Some HiddenStorage\<close> have "j \<noteq> i" by auto
      moreover have "nextElementSibling d i \<noteq> Some j"
        using dom_ok_next(4) [OF ok \<open>parentElement d i \<noteq> Some HiddenStorage\<close>] h by blast
      ultimately show ?thesis using layoutRound_frame [of g d i t] by blast
    qed
    with that(1) layoutRound_frame [of g d i t] show ?thesis by (simp add: I_def)
  qed
  have "\<exists>k topsK. I k topsK tr' \<and>
           (if res = Completed then length (footnoteRefs g) \<le> k \<and> topsK = tops'
            else k < length (footnoteRefs g) \<and> parentElement d k \<noteq> Some HiddenStorage \<and>
              (res = GaveUp \<and> layoutRound g d k topsK = GiveUp tops' \<or>
               res = Exception \<and> layoutRound g d k topsK = TypeError tops'))"
  proof (rule layoutLoop_rule [OF run, where I = I], goal_cases)
    case 1
    show ?case using len by (simp add: I_def)
  next
    case (2 i t tr)
    then show ?case by (simp add: I_def)
  next
    case (3 i t tr t1)
    with step [OF 3(1) 3(3)] show ?case by simp
  next
    case (4 i t tr t1)
    with step [OF 4(1) 4(3)] show ?case by simp
  next
    case (5 i t tr t1)
    with step [OF 5(1) 5(3)] show ?case by simp
  qed
  then obtain k topsK where I: "I k topsK tr'"
    and fin: "if res = Completed then length (footnoteRefs g) \<le> k \<and> topsK = tops'
            else k < length (footnoteRefs g) \<and> parentElement d k \<noteq> Some HiddenStorage \<and>
              (res = GaveUp \<and> layoutRound g d k topsK = GiveUp tops' \<or>
               res = Exception \<and> layoutRound g d k topsK = TypeError tops')"
    by blast
  show ?thesis
  proof (cases "res = Completed")
    case True
    with I fin show ?thesis by (simp add: I_def)
  next
    case False
    with fin have nh: "parentElement d k \<noteq> Some HiddenStorage"
      and "roundTops (layoutRound g d k topsK) = tops'" by auto
    with step [OF I nh, of k tr'] show ?thesis by (simp add: I_def)
  qed
qed

subsection \<open>Hidden sidenotes, and running twice\<close>

lemma run_unfold:
  assumes ok: "dom_ok (length (footnoteRefs g)) d" and nf: "\<not> viewportWidthBreakpoint g"
  shows "updateSidenotePositions g d =
     (case layoutLoop g (classified (footnoteRefs g) d) 0
             (initialLayout g (classified (footnoteRefs g) d)) [] of
        None \<Rightarrow> None
      | Some (res, tops, tr) \<Rightarrow>
          Some (res,
                (if res = Completed
                 then (classified (footnoteRefs g) d)\<lparr>styleTop := tops, columnsVisible := True\<rparr>
                 else (classified (footnoteRefs g) d)\<lparr>styleTop := tops\<rparr>),
                tr))"
proof -
  let ?d1 = "classified (footnoteRefs g) d"
  have st: "sameTree (?d1\<lparr>styleTop := initialLayout g ?d1\<rparr>) ?d1"
    by (simp add: sameTree_def)
  show ?thesis
    unfolding updateSidenotePositions_def
    by (simp add: nf updateSidenotesInCollapseBlocks_classified [OF ok] Let_def
        sameTree_layoutLoop [OF st] split: option.splits)
qed

lemma length_initialLayout:
  "length (styleTop d) = length (footnoteRefs g) \<Longrightarrow> length (initialLayout g d) = length (footnoteRefs g)"
  by (simp add: initialLayout_eq)

lemma classified_fields [simp]:
  "styleTop (classified refs d) = styleTop d" "columnsVisible (classified refs d) = columnsVisible d"
  by (simp_all add: classified_def)

lemma classified_self:
  "sameTree d' (classified refs d) \<Longrightarrow> classified refs d' = d'"
  by (simp add: classified_def sameTree_def)

text \<open>
  C10: a run never changes the position of a sidenote whose reference is within a
  currently-collapsed block. Such a sidenote is in the hidden storage once the run
  has reclassified the sidenotes; the initial layout and the overlap correction both
  skip it, and no displayed sidenote has it as its next sibling.
\<close>

theorem C10_hidden_sidenotes_keep_their_position:
  assumes ok: "dom_ok (length (footnoteRefs g)) d"
    and run: "updateSidenotePositions g d = Some (res, d', tr)"
    and i: "i < length (footnoteRefs g)" and c: "collapsed (footnoteRefs g) i"
  shows "styleTop d' ! i = styleTop d ! i \<and>
    (\<not> viewportWidthBreakpoint g \<longrightarrow> parentElement d' i = Some HiddenStorage)"
proof (cases "viewportWidthBreakpoint g")
  case True
  with run show ?thesis by (simp add: updateSidenotePositions_def)
next
  case False
  let ?refs = "footnoteRefs g"
  let ?d1 = "classified ?refs d"
  have ok1: "dom_ok (length ?refs) ?d1" using ok by (rule dom_ok_classified)
  then have len1: "length (styleTop ?d1) = length ?refs" by (simp add: dom_ok_def)
  from run obtain tops where loop: "layoutLoop g ?d1 0 (initialLayout g ?d1) [] = Some (res, tops, tr)"
    and d': "d' = (if res = Completed then ?d1\<lparr>styleTop := tops, columnsVisible := True\<rparr>
                   else ?d1\<lparr>styleTop := tops\<rparr>)"
    unfolding run_unfold [OF ok False] by (auto split: option.splits)
  have hid: "parentElement ?d1 i = Some HiddenStorage"
    using i c by (simp add: parentElement_classified)
  from layoutLoop_frame [OF ok1 refl length_initialLayout [OF len1] loop] hid
  have "tops ! i = initialLayout g ?d1 ! i" by blast
  also have "\<dots> = styleTop d ! i"
    using i hid by (simp add: initialLayout_eq [OF len1])
  finally have "styleTop d' ! i = styleTop d ! i" by (simp add: d')
  moreover have "parentElement d' i = parentElement ?d1 i"
    by (rule sameTree_parentElement) (simp add: d' sameTree_def)
  ultimately show ?thesis using hid by simp
qed

theorem C10_hidden_sidenotes_keep_their_position_witness:
  "dom_ok (length (footnoteRefs collapsePage)) (constructSidenotes 3 [7, 8, 9]) \<and>
   updateSidenotePositions collapsePage (constructSidenotes 3 [7, 8, 9]) =
     Some (Completed,
       \<lparr>sidenoteColumnLeft = [], sidenoteColumnRight = [0, 2], hiddenSidenoteStorage = [1],
        styleTop = [60, 8, 220], columnsVisible = True\<rparr>,
       [(0, ExitPlaced), (2, ExitPlaced)]) \<and>
   1 < length (footnoteRefs collapsePage) \<and> collapsed (footnoteRefs collapsePage) 1 \<and>
   styleTop \<lparr>sidenoteColumnLeft = [], sidenoteColumnRight = [0, 2], hiddenSidenoteStorage = [1],
        styleTop = [60, 8, 220], columnsVisible = True\<rparr> ! 1
     = styleTop (constructSidenotes 3 [7, 8, 9]) ! 1"
proof -
  have len: "length (footnoteRefs collapsePage) = 3"
    by (simp add: collapsePage_def)
  have ok: "dom_ok (length (footnoteRefs collapsePage)) (constructSidenotes 3 [7, 8, 9])"
    unfolding len by (rule dom_ok_constructSidenotes) simp
  have run: "updateSidenotePositions collapsePage (constructSidenotes 3 [7, 8, 9]) =
     Some (Completed,
       \<lparr>sidenoteColumnLeft = [], sidenoteColumnRight = [0, 2], hiddenSidenoteStorage = [1],
        styleTop = [60, 8, 220], columnsVisible = True\<rparr>,
       [(0, ExitPlaced), (2, ExitPlaced)])"
    by code_simp
  have i: "1 < length (footnoteRefs collapsePage)"
    by (simp add: len)
  have c: "collapsed (footnoteRefs collapsePage) 1"
    by code_simp
  from C10_hidden_sidenotes_keep_their_position [OF ok run i c] ok run i c
  show ?thesis by blast
qed
text \<open>
  C8: a second run on the same page (same geometry, same state of the collapse
  blocks), started from the state the first run ended in, ends in that same state,
  the same way: every \<^verbatim>\<open>style.top\<close> is what the first run made it.
\<close>

theorem C8_second_run_changes_nothing:
  assumes ok: "dom_ok (length (footnoteRefs g)) d"
    and run: "updateSidenotePositions g d = Some (res, d', tr)"
  shows "updateSidenotePositions g d' = Some (res, d', tr)"
proof (cases "viewportWidthBreakpoint g")
  case True
  with run show ?thesis by (simp add: updateSidenotePositions_def)
next
  case False
  let ?refs = "footnoteRefs g"
  let ?d1 = "classified ?refs d"
  have ok1: "dom_ok (length ?refs) ?d1" using ok by (rule dom_ok_classified)
  then have len1: "length (styleTop ?d1) = length ?refs" by (simp add: dom_ok_def)
  from run obtain tops where loop: "layoutLoop g ?d1 0 (initialLayout g ?d1) [] = Some (res, tops, tr)"
    and d': "d' = (if res = Completed then ?d1\<lparr>styleTop := tops, columnsVisible := True\<rparr>
                   else ?d1\<lparr>styleTop := tops\<rparr>)"
    unfolding run_unfold [OF ok False] by (auto split: option.splits)
  note fr = layoutLoop_frame [OF ok1 refl length_initialLayout [OF len1] loop]
  have st: "sameTree d' ?d1" by (simp add: d' sameTree_def)
  have tops': "styleTop d' = tops" by (simp add: d')
  have ok': "dom_ok (length ?refs) d'"
    using ok1 st fr tops' by (auto intro: dom_ok_sameTree simp add: sameTree_def)
  have cl: "classified ?refs d' = d'" using st by (rule classified_self)
  have "initialLayout g d' = initialLayout g ?d1"
  proof -
    have "(if parentElement d' i = Some HiddenStorage then styleTop d' ! i else defaultTop g i) =
          (if parentElement ?d1 i = Some HiddenStorage then styleTop ?d1 ! i else defaultTop g i)"
      if "i < length ?refs" for i
    proof (cases "parentElement ?d1 i = Some HiddenStorage")
      case True
      with fr have "tops ! i = initialLayout g ?d1 ! i" by blast
      also have "\<dots> = styleTop ?d1 ! i" using that True by (simp add: initialLayout_eq [OF len1])
      finally show ?thesis using True by (simp add: sameTree_parentElement [OF st] tops')
    next
      case False
      then show ?thesis by (simp add: sameTree_parentElement [OF st])
    qed
    then have "map (\<lambda>i. if parentElement d' i = Some HiddenStorage then styleTop d' ! i
                       else defaultTop g i) [0..<length ?refs] =
               map (\<lambda>i. if parentElement ?d1 i = Some HiddenStorage then styleTop ?d1 ! i
                       else defaultTop g i) [0..<length ?refs]"
      by (intro map_cong) auto
    moreover have "length (styleTop d') = length ?refs" using fr tops' by simp
    ultimately show ?thesis
      unfolding initialLayout_eq [OF len1] initialLayout_eq [OF \<open>length (styleTop d') = length ?refs\<close>]
      by simp
  qed
  then have "layoutLoop g d' 0 (initialLayout g d') [] = Some (res, tops, tr)"
    using loop sameTree_layoutLoop [OF st] by simp
  then show ?thesis
    unfolding run_unfold [OF ok' False] cl
    by (simp add: d')
qed

theorem C8_second_run_changes_nothing_witness:
  "dom_ok (length (footnoteRefs collapsePage)) (constructSidenotes 3 [7, 8, 9]) \<and>
   updateSidenotePositions collapsePage (constructSidenotes 3 [7, 8, 9]) =
     Some (Completed,
       \<lparr>sidenoteColumnLeft = [], sidenoteColumnRight = [0, 2], hiddenSidenoteStorage = [1],
        styleTop = [60, 8, 220], columnsVisible = True\<rparr>,
       [(0, ExitPlaced), (2, ExitPlaced)]) \<and>
   updateSidenotePositions collapsePage
       \<lparr>sidenoteColumnLeft = [], sidenoteColumnRight = [0, 2], hiddenSidenoteStorage = [1],
        styleTop = [60, 8, 220], columnsVisible = True\<rparr> =
     Some (Completed,
       \<lparr>sidenoteColumnLeft = [], sidenoteColumnRight = [0, 2], hiddenSidenoteStorage = [1],
        styleTop = [60, 8, 220], columnsVisible = True\<rparr>,
       [(0, ExitPlaced), (2, ExitPlaced)])"
proof -
  have len: "length (footnoteRefs collapsePage) = 3"
    by (simp add: collapsePage_def)
  have ok: "dom_ok (length (footnoteRefs collapsePage)) (constructSidenotes 3 [7, 8, 9])"
    unfolding len by (rule dom_ok_constructSidenotes) simp
  have run: "updateSidenotePositions collapsePage (constructSidenotes 3 [7, 8, 9]) =
     Some (Completed,
       \<lparr>sidenoteColumnLeft = [], sidenoteColumnRight = [0, 2], hiddenSidenoteStorage = [1],
        styleTop = [60, 8, 220], columnsVisible = True\<rparr>,
       [(0, ExitPlaced), (2, ExitPlaced)])"
    by code_simp
  from C8_second_run_changes_nothing [OF ok run] ok run show ?thesis by blast
qed

subsection \<open>The room of a sidenote\<close>

lemma halfwayPoint_less [simp]: "halfwayPoint a b < halfwayPoint c d \<longleftrightarrow> a + b < c + d"
  unfolding halfwayPoint_def by (simp flip: of_int_add)

lemma narrowRoom_fields:
  "room_ceiling (narrowRoom ranges off m r j) =
     (if midpointOf off (ranges ! j) < m then range_bottom (ranges ! j) - off else room_ceiling r)"
  "room_floor (narrowRoom ranges off m r j) =
     (if midpointOf off (ranges ! (length ranges - Suc j)) > m
      then range_top (ranges ! (length ranges - Suc j)) - off else room_floor r)"
  "nextProscribedRangeAfterSidenote (narrowRoom ranges off m r j) =
     (if midpointOf off (ranges ! (length ranges - Suc j)) > m
      then int (length ranges - Suc j) else nextProscribedRangeAfterSidenote r)"
  by (simp_all add: narrowRoom_def midpointOf_def Let_def)

lemma narrowRoom_upto:
  assumes "k \<le> length ranges"
  shows "room_ceiling (foldl (narrowRoom ranges off m) r0 [0..<k]) =
           (case find (\<lambda>r. midpointOf off r < m) (rev (take k ranges)) of
              None \<Rightarrow> room_ceiling r0 | Some r \<Rightarrow> range_bottom r - off)"
    and "room_floor (foldl (narrowRoom ranges off m) r0 [0..<k]) =
           (case find (\<lambda>j. midpointOf off (ranges ! j) > m) [length ranges - k..<length ranges] of
              None \<Rightarrow> room_floor r0 | Some j \<Rightarrow> range_top (ranges ! j) - off)"
    and "nextProscribedRangeAfterSidenote (foldl (narrowRoom ranges off m) r0 [0..<k]) =
           (case find (\<lambda>j. midpointOf off (ranges ! j) > m) [length ranges - k..<length ranges] of
              None \<Rightarrow> nextProscribedRangeAfterSidenote r0 | Some j \<Rightarrow> int j)"
  using assms
proof (induction k)
  case 0
  {
    case 1 show ?case by simp
  next
    case 2 show ?case by simp
  next
    case 3 show ?case by simp
  }
next
  case (Suc k)
  have down: "[length ranges - Suc k..<length ranges] =
      (length ranges - Suc k) # [length ranges - k..<length ranges]" if "Suc k \<le> length ranges"
    using that by (simp add: upt_conv_Cons Suc_diff_Suc)
  {
    case 1
    then have k: "k < length ranges" by simp
    with Suc(1) show ?case
      by (simp add: narrowRoom_fields take_Suc_conv_app_nth)
  next
    case 2
    with Suc(2) show ?case
      by (simp add: narrowRoom_fields down)
  next
    case 3
    with Suc(3) show ?case
      by (simp add: narrowRoom_fields down)
  }
qed

lemma computeRoom_fields:
  "room_ceiling (computeRoom ranges side m) =
     (case lastAbove ranges (offsetTop side) m of
        None \<Rightarrow> 0 | Some a \<Rightarrow> range_bottom a - offsetTop side)"
  "room_floor (computeRoom ranges side m) =
     (case firstBelow ranges (offsetTop side) m of
        None \<Rightarrow> clientHeight side | Some k \<Rightarrow> range_top (ranges ! k) - offsetTop side)"
  "nextProscribedRangeAfterSidenote (computeRoom ranges side m) =
     (case firstBelow ranges (offsetTop side) m of None \<Rightarrow> - 1 | Some k \<Rightarrow> int k)"
  using narrowRoom_upto [of "length ranges" ranges "offsetTop side" m]
  by (simp_all add: computeRoom_def lastAbove_def firstBelow_def split: option.splits)

lemma find_rev_last:
  "find P (rev xs) = Some r \<Longrightarrow> sorted_wrt R xs \<Longrightarrow>
     r \<in> set xs \<and> P r \<and> (\<forall>a \<in> set xs. P a \<longrightarrow> a = r \<or> R a r)"
proof (induction xs rule: rev_induct)
  case Nil
  then show ?case by simp
next
  case (snoc x xs)
  then show ?case
    by (cases "P x") (auto simp add: sorted_wrt_append)
qed

lemma find_rev_None: "find P (rev xs) = None \<longleftrightarrow> (\<forall>a \<in> set xs. \<not> P a)"
  by (auto simp add: find_None_iff)

lemma find_upt_first:
  assumes "find (\<lambda>k. P (xs ! k)) [0..<length xs] = Some k" and "sorted_wrt R xs"
  shows "k < length xs \<and> P (xs ! k) \<and> (\<forall>a \<in> set xs. P a \<longrightarrow> a = xs ! k \<or> R (xs ! k) a)"
proof -
  from assms(1) have k: "k < length xs" "P (xs ! k)" and first: "\<forall>j < k. \<not> P (xs ! j)"
    by (auto simp add: find_Some_iff)
  have "a = xs ! k \<or> R (xs ! k) a" if "a \<in> set xs" "P a" for a
  proof -
    from that(1) obtain j where j: "j < length xs" "a = xs ! j" by (auto simp add: in_set_conv_nth)
    with first that(2) have "k \<le> j" by (meson not_le)
    show ?thesis
    proof (cases "j = k")
      case True
      with j show ?thesis by simp
    next
      case False
      with \<open>k \<le> j\<close> have "k < j" by simp
      from sorted_wrt_nth_less [OF assms(2) this j(1)] j show ?thesis by simp
    qed
  qed
  with k show ?thesis by blast
qed

lemma find_upt_None:
  "find (\<lambda>k. P (xs ! k)) [0..<length xs] = None \<longleftrightarrow> (\<forall>a \<in> set xs. \<not> P a)"
  by (auto simp add: find_None_iff in_set_conv_nth) (meson nth_mem)

text \<open>
  C5, as the claim states it, fails. Two rooms computed by the code:
  \<^item> a sidenote of height 80 at top 160 has the footprint 100 to 300, exactly the
    proscribed range 100 to 300; the halfway points are equal, so the range bounds the
    room neither above nor below, and the room is the whole column, 0 to 10000, with
    the proscribed range inside it;
  \<^item> with the ranges listed as 500 to 600, then 200 to 300, a sidenote of height 80 at
    top 0 (halfway point 40) gets the floor 500, the top of the first listed range
    below it, although the range 200 to 300 is nearer and lies inside that room.
\<close>

theorem C5_room_is_not_obstacle_free:
  "roomOf (simplePage [] [80] 10000 [\<lparr>range_top = 100, range_bottom = 300\<rparr>]) 0 160
     = \<lparr>room_ceiling = 0, room_floor = 10000, nextProscribedRangeAfterSidenote = 1\<rparr> \<and>
   footprintTop 160 = 100 \<and>
   footprintBottom (simplePage [] [80] 10000 [\<lparr>range_top = 100, range_bottom = 300\<rparr>]) 0 160 = 300 \<and>
   proscribedVerticalRanges (simplePage [] [80] 10000 [\<lparr>range_top = 100, range_bottom = 300\<rparr>]) ! 0
     = \<lparr>range_top = 100, range_bottom = 300\<rparr> \<and>
   roomOf (simplePage [] [80] 10000
       [\<lparr>range_top = 500, range_bottom = 600\<rparr>, \<lparr>range_top = 200, range_bottom = 300\<rparr>]) 0 0
     = \<lparr>room_ceiling = 0, room_floor = 500, nextProscribedRangeAfterSidenote = 0\<rparr> \<and>
   proscribedVerticalRanges (simplePage [] [80] 10000
       [\<lparr>range_top = 500, range_bottom = 600\<rparr>, \<lparr>range_top = 200, range_bottom = 300\<rparr>]) ! 1
     = \<lparr>range_top = 200, range_bottom = 300\<rparr> \<and>
   room_ceiling (roomOf (simplePage [] [80] 10000 [\<lparr>range_top = 100, range_bottom = 300\<rparr>]) 0 160)
     < 100 \<and>
   300 < room_floor (roomOf (simplePage [] [80] 10000 [\<lparr>range_top = 100, range_bottom = 300\<rparr>]) 0 160) \<and>
   footprintHalfwayPoint (simplePage [] [80] 10000
       [\<lparr>range_top = 500, range_bottom = 600\<rparr>, \<lparr>range_top = 200, range_bottom = 300\<rparr>]) 0 0
     < midpointOf 0 \<lparr>range_top = 200, range_bottom = 300\<rparr> \<and>
   midpointOf 0 \<lparr>range_top = 200, range_bottom = 300\<rparr>
     < midpointOf 0 \<lparr>range_top = 500, range_bottom = 600\<rparr> \<and>
   room_floor (roomOf (simplePage [] [80] 10000
       [\<lparr>range_top = 500, range_bottom = 600\<rparr>, \<lparr>range_top = 200, range_bottom = 300\<rparr>]) 0 0)
     \<noteq> 200"
  by code_simp

text \<open>
  C5, amended. For the halfway point \<open>m\<close> of the footprint of the sidenote:
  \<^item> the ceiling is the bottom of the last range of the list whose halfway point is
    strictly above \<open>m\<close>, and 0 when there is none;
  \<^item> the floor is the top of the first range of the list whose halfway point is
    strictly below \<open>m\<close>, whose index is recorded; when there is none the floor is the
    height of the column and the recorded index is -1;
  \<^item> when the list is in ascending order of halfway points, these two ranges are the
    nearest ones above and below;
  \<^item> when the ranges are listed from top to bottom and do not overlap, every range whose
    halfway point is not exactly \<open>m\<close> lies outside the open interval from ceiling to
    floor.
  (\<open>roomOf g i t\<close> is \<open>computeRoom\<close> for the ranges of the page, the column of
  sidenote \<open>i\<close> and the halfway point of its footprint at top \<open>t\<close>.)
\<close>

theorem C5_room_bounds:
  "room_ceiling (computeRoom ranges side m) =
     (case lastAbove ranges (offsetTop side) m of
        None \<Rightarrow> 0 | Some a \<Rightarrow> range_bottom a - offsetTop side) \<and>
   room_floor (computeRoom ranges side m) =
     (case firstBelow ranges (offsetTop side) m of
        None \<Rightarrow> clientHeight side | Some k \<Rightarrow> range_top (ranges ! k) - offsetTop side) \<and>
   nextProscribedRangeAfterSidenote (computeRoom ranges side m) =
     (case firstBelow ranges (offsetTop side) m of None \<Rightarrow> - 1 | Some k \<Rightarrow> int k) \<and>
   (case lastAbove ranges (offsetTop side) m of
      None \<Rightarrow> \<forall>b \<in> set ranges. \<not> midpointOf (offsetTop side) b < m
    | Some a \<Rightarrow> a \<in> set ranges \<and> midpointOf (offsetTop side) a < m \<and>
        (sorted_wrt (\<lambda>x y. midpointOf (offsetTop side) x \<le> midpointOf (offsetTop side) y) ranges
           \<longrightarrow> (\<forall>b \<in> set ranges. midpointOf (offsetTop side) b < m
                  \<longrightarrow> midpointOf (offsetTop side) b \<le> midpointOf (offsetTop side) a))) \<and>
   (case firstBelow ranges (offsetTop side) m of
      None \<Rightarrow> \<forall>b \<in> set ranges. \<not> m < midpointOf (offsetTop side) b
    | Some k \<Rightarrow> k < length ranges \<and> m < midpointOf (offsetTop side) (ranges ! k) \<and>
        (sorted_wrt (\<lambda>x y. midpointOf (offsetTop side) x \<le> midpointOf (offsetTop side) y) ranges
           \<longrightarrow> (\<forall>b \<in> set ranges. m < midpointOf (offsetTop side) b
                  \<longrightarrow> midpointOf (offsetTop side) (ranges ! k) \<le> midpointOf (offsetTop side) b))) \<and>
   (sorted_wrt (\<lambda>x y. range_bottom x \<le> range_top y) ranges \<and>
    (\<forall>b \<in> set ranges. range_top b \<le> range_bottom b)
      \<longrightarrow> (\<forall>b \<in> set ranges. midpointOf (offsetTop side) b \<noteq> m \<longrightarrow>
             range_bottom b - offsetTop side \<le> room_ceiling (computeRoom ranges side m) \<or>
             room_floor (computeRoom ranges side m) \<le> range_top b - offsetTop side))"
proof -
  let ?off = "offsetTop side"
  let ?above = "\<lambda>r. midpointOf ?off r < m"
  let ?below = "\<lambda>r. m < midpointOf ?off r"
  let ?le = "\<lambda>x y. midpointOf ?off x \<le> midpointOf ?off y"
  let ?before = "\<lambda>x y. range_bottom x \<le> range_top y"
  have above: "case lastAbove ranges ?off m of
      None \<Rightarrow> \<forall>b \<in> set ranges. \<not> ?above b
    | Some a \<Rightarrow> a \<in> set ranges \<and> ?above a \<and>
        (sorted_wrt ?le ranges \<longrightarrow> (\<forall>b \<in> set ranges. ?above b \<longrightarrow> ?le b a))"
  proof (cases "lastAbove ranges ?off m")
    case None
    then have "\<forall>b \<in> set ranges. \<not> ?above b" by (simp add: lastAbove_def find_rev_None)
    with None show ?thesis by simp
  next
    case (Some a)
    then have f: "find ?above (rev ranges) = Some a" by (simp add: lastAbove_def)
    from find_rev_last [OF f, of "\<lambda>x y. True"] have "a \<in> set ranges" "?above a" by simp_all
    moreover have "\<forall>b \<in> set ranges. ?above b \<longrightarrow> ?le b a" if "sorted_wrt ?le ranges"
      using find_rev_last [OF f that] by auto
    ultimately show ?thesis using Some by simp
  qed
  have below: "case firstBelow ranges ?off m of
      None \<Rightarrow> \<forall>b \<in> set ranges. \<not> ?below b
    | Some k \<Rightarrow> k < length ranges \<and> ?below (ranges ! k) \<and>
        (sorted_wrt ?le ranges \<longrightarrow> (\<forall>b \<in> set ranges. ?below b \<longrightarrow> ?le (ranges ! k) b))"
  proof (cases "firstBelow ranges ?off m")
    case None
    then have "\<forall>b \<in> set ranges. \<not> ?below b"
      using find_upt_None [of ?below ranges] by (simp add: firstBelow_def)
    with None show ?thesis by simp
  next
    case (Some k)
    then have f: "find (\<lambda>k. ?below (ranges ! k)) [0..<length ranges] = Some k"
      by (simp add: firstBelow_def)
    from find_upt_first [OF f, of "\<lambda>x y. True"] have "k < length ranges" "?below (ranges ! k)"
      by simp_all
    moreover have "\<forall>b \<in> set ranges. ?below b \<longrightarrow> ?le (ranges ! k) b" if "sorted_wrt ?le ranges"
      using find_upt_first [OF f that] by auto
    ultimately show ?thesis using Some by simp
  qed
  have free: "range_bottom b - ?off \<le> room_ceiling (computeRoom ranges side m) \<or>
             room_floor (computeRoom ranges side m) \<le> range_top b - ?off"
    if srt: "sorted_wrt ?before ranges" and wf: "\<forall>b \<in> set ranges. range_top b \<le> range_bottom b"
      and b: "b \<in> set ranges" "midpointOf ?off b \<noteq> m" for b
  proof (cases "?above b")
    case True
    with b(1) obtain a where a: "lastAbove ranges ?off m = Some a"
      using find_rev_None [of ?above ranges] by (auto simp add: lastAbove_def)
    then have f: "find ?above (rev ranges) = Some a" by (simp add: lastAbove_def)
    from find_rev_last [OF f srt] b(1) True have "a \<in> set ranges" "b = a \<or> ?before b a" by auto
    with wf have "range_bottom b \<le> range_bottom a" by fastforce
    then show ?thesis by (simp add: computeRoom_fields a)
  next
    case False
    with b(2) have bl: "?below b" by simp
    with b(1) obtain k where k: "firstBelow ranges ?off m = Some k"
      using find_upt_None [of ?below ranges] by (auto simp add: firstBelow_def)
    then have f: "find (\<lambda>k. ?below (ranges ! k)) [0..<length ranges] = Some k"
      by (simp add: firstBelow_def)
    from find_upt_first [OF f srt] b(1) bl
    have "k < length ranges" "b = ranges ! k \<or> ?before (ranges ! k) b" by auto
    with wf have "range_top (ranges ! k) \<le> range_top b"
      by (metis nth_mem order_refl order_trans)
    then show ?thesis by (simp add: computeRoom_fields k)
  qed
  from above below free show ?thesis
    by (simp add: computeRoom_fields)
qed

theorem C5_room_bounds_witness:
  "sorted_wrt (\<lambda>x y. midpointOf 0 x \<le> midpointOf 0 y)
     [\<lparr>range_top = 100, range_bottom = 300\<rparr>, \<lparr>range_top = 500, range_bottom = 600\<rparr>,
      \<lparr>range_top = 10000, range_bottom = 10000\<rparr>] \<and>
   sorted_wrt (\<lambda>x y. range_bottom x \<le> range_top y)
     [\<lparr>range_top = 100, range_bottom = 300\<rparr>, \<lparr>range_top = 500, range_bottom = 600\<rparr>,
      \<lparr>range_top = 10000, range_bottom = 10000\<rparr>] \<and>
   lastAbove [\<lparr>range_top = 100, range_bottom = 300\<rparr>, \<lparr>range_top = 500, range_bottom = 600\<rparr>,
      \<lparr>range_top = 10000, range_bottom = 10000\<rparr>] 0 400 = Some \<lparr>range_top = 100, range_bottom = 300\<rparr> \<and>
   firstBelow [\<lparr>range_top = 100, range_bottom = 300\<rparr>, \<lparr>range_top = 500, range_bottom = 600\<rparr>,
      \<lparr>range_top = 10000, range_bottom = 10000\<rparr>] 0 400 = Some 1 \<and>
   computeRoom [\<lparr>range_top = 100, range_bottom = 300\<rparr>, \<lparr>range_top = 500, range_bottom = 600\<rparr>,
      \<lparr>range_top = 10000, range_bottom = 10000\<rparr>]
      \<lparr>rectTop = 0, offsetTop = 0, clientHeight = 10000\<rparr> 400
     = \<lparr>room_ceiling = 300, room_floor = 500, nextProscribedRangeAfterSidenote = 1\<rparr> \<and>
   range_bottom \<lparr>range_top = 100, range_bottom = 300\<rparr> - 0 \<le> (300::int) \<and>
   (500::int) \<le> range_top \<lparr>range_top = 500, range_bottom = 600\<rparr> - 0 \<and>
   (500::int) \<le> range_top \<lparr>range_top = 10000, range_bottom = 10000\<rparr> - 0"
proof -
  let ?rs = "[\<lparr>range_top = 100, range_bottom = 300\<rparr>, \<lparr>range_top = 500, range_bottom = 600\<rparr>,
      \<lparr>range_top = 10000, range_bottom = 10000\<rparr>]"
  let ?side = "\<lparr>rectTop = 0, offsetTop = 0, clientHeight = 10000\<rparr>"
  have s1: "sorted_wrt (\<lambda>x y. midpointOf 0 x \<le> midpointOf 0 y) ?rs"
    by (simp add: midpointOf_def halfwayPoint_def)
  have s2: "sorted_wrt (\<lambda>x y. range_bottom x \<le> range_top y) ?rs"
    by simp
  have w: "\<forall>b \<in> set ?rs. range_top b \<le> range_bottom b"
    by simp
  have a: "lastAbove ?rs 0 400 = Some \<lparr>range_top = 100, range_bottom = 300\<rparr>"
    by code_simp
  have b: "firstBelow ?rs 0 400 = Some 1"
    by code_simp
  have c: "computeRoom ?rs ?side 400
     = \<lparr>room_ceiling = 300, room_floor = 500, nextProscribedRangeAfterSidenote = 1\<rparr>"
    by code_simp
  from C5_room_bounds [of ?rs ?side 400] s1 s2 w a b c show ?thesis
    by simp
qed

subsection \<open>Termination\<close>









lemma retries_append [simp]:
  "retries (tr @ [(i, e)]) = retries tr + (if e = ExitAgain then 1 else 0)"
  by (simp add: retries_def)






subsection \<open>Columns above their offset parent\<close>

text \<open>
  The termination result assumes that \<^verbatim>\<open>side.offsetTop\<close> is not negative, and it has
  to. The room is computed from the ranges shifted by \<^verbatim>\<open>side.offsetTop\<close>, but the
  sidenote is moved to the unshifted bottom of the range found below it. With the
  right column 215 above its offset parent, a sidenote of height 300 is moved to 260,
  where the bottom of the column (200, seen at 415) is still below its halfway point
  (410) and it still does not fit: the next round moves it to 260 again, and the
  loop never ends.
\<close>

lemma raised_column_never_returns:
  "\<not> page_ok raisedColumnPage \<and>
   updateSidenotePositions raisedColumnPage (constructSidenotes 1 [0]) = None"
proof -
  let ?g = raisedColumnPage
  define d where "d = \<lparr>sidenoteColumnLeft = [], sidenoteColumnRight = [0::nat],
      hiddenSidenoteStorage = [], styleTop = [0::int], columnsVisible = False\<rparr>"
  have c: "constructSidenotes 1 [0] = d"
    by (simp add: constructSidenotes_eq sideOf_def d_def)
  have n: "length (footnoteRefs ?g) = 1" and nf: "\<not> viewportWidthBreakpoint ?g"
    by (simp_all add: raisedColumnPage_def simplePage_def)
  have u: "updateSidenotesInCollapseBlocks (footnoteRefs ?g) d = Normal d"
    unfolding d_def by code_simp
  have i: "initialLayout ?g d = [4]"
    unfolding d_def by code_simp
  have pe: "parentElement (d\<lparr>styleTop := [4]\<rparr>) 0 = Some ColumnRight"
    by (simp add: d_def parentElement_def)
  have r1: "layoutRound ?g (d\<lparr>styleTop := [4]\<rparr>) 0 [4] = Again [260]"
    unfolding d_def by code_simp
  have r2: "layoutRound ?g (d\<lparr>styleTop := [4]\<rparr>) 0 [260] = Again [260]"
    unfolding d_def by code_simp
  have never: "layoutLoop ?g (d\<lparr>styleTop := [4]\<rparr>) 0 [260] tr = None" for tr
  proof (cases "layoutLoop ?g (d\<lparr>styleTop := [4]\<rparr>) 0 [260] tr")
    case None
    then show ?thesis .
  next
    case (Some y)
    obtain res tops' tr' where y: "y = (res, tops', tr')" by (cases y)
    have "\<exists>k topsK. (k = 0 \<and> topsK = [260]) \<and>
           (if res = Completed then length (footnoteRefs ?g) \<le> k \<and> topsK = tops'
            else k < length (footnoteRefs ?g) \<and>
              parentElement (d\<lparr>styleTop := [4]\<rparr>) k \<noteq> Some HiddenStorage \<and>
              (res = GaveUp \<and> layoutRound ?g (d\<lparr>styleTop := [4]\<rparr>) k topsK = GiveUp tops' \<or>
               res = Exception \<and> layoutRound ?g (d\<lparr>styleTop := [4]\<rparr>) k topsK = TypeError tops'))"
    proof (rule layoutLoop_rule [OF Some [unfolded y],
          where I = "\<lambda>k topsK tr. k = 0 \<and> topsK = [260]"], goal_cases)
      case 1
      show ?case by simp
    next
      case (2 i t tr)
      then show ?case by (simp add: pe)
    next
      case (3 i t tr t1)
      then show ?case by (simp add: r2)
    next
      case (4 i t tr t1)
      then show ?case by (simp add: r2)
    next
      case (5 i t tr t1)
      then show ?case by (simp add: r2)
    qed
    then show ?thesis by (auto simp add: n r2 split: if_splits)
  qed
  have "layoutLoop ?g (d\<lparr>styleTop := [4]\<rparr>) 0 [4] [] = None"
    by (subst layoutLoop.simps) (simp add: n pe r1 never)
  then have "updateSidenotePositions ?g d = None"
    by (simp add: updateSidenotePositions_def nf u i)
  moreover have "\<not> page_ok ?g"
    by (simp add: page_ok_def raisedColumnPage_def simplePage_def)
  ultimately show ?thesis unfolding c by simp
qed

subsection \<open>What a round does to a sidenote\<close>




lemma layoutRound_Again_only:
  assumes "layoutRound g d i tops = Again t1" "j \<noteq> i"
  shows "t1 ! j = tops ! j"
  using assms
  by (auto simp add: layoutRound_def placeInRoom_def resolveOverlapBelow_def Let_def
      split: if_splits option.splits)

lemma layoutRound_GiveUp:
  assumes "layoutRound g d i tops = GiveUp t1"
  shows "t1 = tops"
  using assms
  by (auto simp add: layoutRound_def placeInRoom_def resolveOverlapBelow_def Let_def
      split: if_splits option.splits)





subsection \<open>The default positions\<close>




subsection \<open>Giving up\<close>

text \<open>
  C2, as the claim states it, fails. Two sidenotes, of heights 300 and 10, in columns
  of height 200, both previously at top 60. Sidenote 0 (right column) cannot fit and
  the run gives up there: it is left at 260, where the run had moved it, not at its
  previous 60; and sidenote 1, alone in the left column, is left at the default 4 of
  this run's initial layout, although a round of the loop on it would place it at 60:
  the other column is not laid out.
\<close>

theorem C2_giving_up_stops_everything:
  "updateSidenotePositions (simplePage [0, 0] [300, 10] 200 []) (constructSidenotes 2 [60, 60])
     = Some (GaveUp,
         \<lparr>sidenoteColumnLeft = [1], sidenoteColumnRight = [0], hiddenSidenoteStorage = [],
          styleTop = [260, 4], columnsVisible = False\<rparr>, [(0, ExitAgain)]) \<and>
   styleTop (constructSidenotes 2 [60, 60]) = [60, 60] \<and>
   layoutRound (simplePage [0, 0] [300, 10] 200 [])
       \<lparr>sidenoteColumnLeft = [1], sidenoteColumnRight = [0], hiddenSidenoteStorage = [],
        styleTop = [260, 4], columnsVisible = False\<rparr> 1 [260, 4] = Placed [260, 60] \<and>
   [260, 4] ! 0 \<noteq> styleTop (constructSidenotes 2 [60, 60]) ! 0 \<and>
   [260, 4] ! 1 \<noteq> ([260, 60] ! 1 :: int)"
  by code_simp

text \<open>
  C2, amended. When the engine gives up, at some displayed sidenote \<open>k\<close> that does not
  fit its room and has no proscribed range below it, the whole function returns at
  once, for both columns: the visibility of the columns is left as it was; the
  positions are the ones the run had reached (in them, sidenote \<open>k\<close> still does not
  fit), nothing is restored; and every displayed sidenote after \<open>k\<close>, in either column,
  that is not the next sibling of a sidenote before \<open>k\<close>, is where this run's initial
  layout put it, at its default.
\<close>

theorem C2_giving_up:
  assumes ok: "dom_ok (length (footnoteRefs g)) d"
    and run: "updateSidenotePositions g d = Some (GaveUp, d', tr)"
  shows "columnsVisible d' = columnsVisible d \<and>
     (\<exists>k < length (footnoteRefs g). \<not> collapsed (footnoteRefs g) k \<and>
        layoutRound g d' k (styleTop d') = GiveUp (styleTop d') \<and>
        (\<forall>j. k < j \<and> j < length (footnoteRefs g) \<and> \<not> collapsed (footnoteRefs g) j \<and>
             (\<forall>a < k. nextElementSibling d' a \<noteq> Some j)
           \<longrightarrow> styleTop d' ! j
                 = refRectTop (footnoteRefs g ! j) - rectTop (sideColumn g (sideOf j)) + 4))"
proof -
  let ?refs = "footnoteRefs g"
  let ?n = "length ?refs"
  let ?d1 = "classified ?refs d"
  let ?t0 = "initialLayout g ?d1"
  from run have nf: "\<not> viewportWidthBreakpoint g"
    by (auto simp add: updateSidenotePositions_def)
  have ok1: "dom_ok ?n ?d1" using ok by (rule dom_ok_classified)
  then have len1: "length (styleTop ?d1) = ?n" by (simp add: dom_ok_def)
  from run obtain tops where loop: "layoutLoop g ?d1 0 ?t0 [] = Some (GaveUp, tops, tr)"
    and d': "d' = ?d1\<lparr>styleTop := tops\<rparr>"
    unfolding run_unfold [OF ok nf] by (auto split: option.splits if_splits)
  have st: "sameTree d' ?d1" by (simp add: d' sameTree_def)
  define I where "I = (\<lambda>i t (tr::(nat \<times> exit) list).
      \<forall>j. i < j \<and> (\<forall>a < i. nextElementSibling ?d1 a \<noteq> Some j) \<longrightarrow> t ! j = ?t0 ! j)"
  have "\<exists>k topsK. I k topsK tr \<and>
           (if GaveUp = Completed then ?n \<le> k \<and> topsK = tops
            else k < ?n \<and> parentElement ?d1 k \<noteq> Some HiddenStorage \<and>
              (GaveUp = GaveUp \<and> layoutRound g ?d1 k topsK = GiveUp tops \<or>
               GaveUp = Exception \<and> layoutRound g ?d1 k topsK = TypeError tops))"
  proof (rule layoutLoop_rule [OF loop, where I = I], goal_cases)
    case 1
    show ?case by (simp add: I_def)
  next
    case (2 i t tr)
    then show ?case by (auto simp add: I_def)
  next
    case (3 i t tr t1)
    have "t1 ! j = t ! j" if "i + 1 < j" "\<forall>a < i + 1. nextElementSibling ?d1 a \<noteq> Some j" for j
      using layoutRound_frame [of g ?d1 i t] 3(4) that by auto
    with 3(1) show ?case by (auto simp add: I_def)
  next
    case (4 i t tr t1)
    have "t1 ! j = t ! j" if "i + 1 < j" "\<forall>a < i + 1. nextElementSibling ?d1 a \<noteq> Some j" for j
      using layoutRound_frame [of g ?d1 i t] 4(4) that by auto
    with 4(1) show ?case by (auto simp add: I_def)
  next
    case (5 i t tr t1)
    with layoutRound_Again_only [OF 5(4)] show ?case by (auto simp add: I_def)
  qed
  then obtain k topsK where I: "I k topsK tr" and k: "k < ?n"
    and nh: "parentElement ?d1 k \<noteq> Some HiddenStorage"
    and gu: "layoutRound g ?d1 k topsK = GiveUp tops" by auto
  from layoutRound_GiveUp [OF gu] have eq: "tops = topsK" .
  have nc: "\<not> collapsed ?refs k" using nh k by (auto simp add: parentElement_classified)
  have r: "layoutRound g d' k (styleTop d') = GiveUp (styleTop d')"
  proof -
    have "layoutRound g d' k tops = layoutRound g ?d1 k tops" using st by (rule sameTree_layoutRound)
    with gu eq show ?thesis by (simp add: d')
  qed
  have rest: "styleTop d' ! j = refRectTop (?refs ! j) - rectTop (sideColumn g (sideOf j)) + 4"
    if "k < j" "j < ?n" "\<not> collapsed ?refs j" "\<forall>a < k. nextElementSibling d' a \<noteq> Some j" for j
  proof -
    from that(4) have "\<forall>a < k. nextElementSibling ?d1 a \<noteq> Some j"
      by (simp add: sameTree_siblings [OF st])
    with I that(1) have "topsK ! j = ?t0 ! j" by (simp add: I_def)
    also have "\<dots> = defaultTop g j"
      using that(2,3) by (simp add: initialLayout_eq [OF len1] parentElement_classified)
    finally show ?thesis by (simp add: d' eq defaultTop_def)
  qed
  have "columnsVisible d' = columnsVisible d" by (simp add: d')
  with k nc r rest show ?thesis by blast
qed

theorem C2_giving_up_witness:
  "dom_ok (length (footnoteRefs (simplePage [0, 0] [300, 10] 200 []))) (constructSidenotes 2 [60, 60]) \<and>
   updateSidenotePositions (simplePage [0, 0] [300, 10] 200 []) (constructSidenotes 2 [60, 60])
     = Some (GaveUp,
         \<lparr>sidenoteColumnLeft = [1], sidenoteColumnRight = [0], hiddenSidenoteStorage = [],
          styleTop = [260, 4], columnsVisible = False\<rparr>, [(0, ExitAgain)]) \<and>
   columnsVisible \<lparr>sidenoteColumnLeft = [1], sidenoteColumnRight = [0], hiddenSidenoteStorage = [],
          styleTop = [260, 4], columnsVisible = False\<rparr>
     = columnsVisible (constructSidenotes 2 [60, 60]) \<and>
   layoutRound (simplePage [0, 0] [300, 10] 200 [])
       \<lparr>sidenoteColumnLeft = [1], sidenoteColumnRight = [0], hiddenSidenoteStorage = [],
        styleTop = [260, 4], columnsVisible = False\<rparr> 0 [260, 4] = GiveUp [260, 4]"
proof -
  let ?g = "simplePage [0, 0] [300, 10] 200 []"
  let ?d = "constructSidenotes 2 [60, 60]"
  have len: "length (footnoteRefs ?g) = 2"
    by (simp add: simplePage_def)
  have ok: "dom_ok (length (footnoteRefs ?g)) ?d"
    unfolding len by (rule dom_ok_constructSidenotes) simp
  have run: "updateSidenotePositions ?g ?d
     = Some (GaveUp,
         \<lparr>sidenoteColumnLeft = [1], sidenoteColumnRight = [0], hiddenSidenoteStorage = [],
          styleTop = [260, 4], columnsVisible = False\<rparr>, [(0, ExitAgain)])"
    by code_simp
  have gu: "layoutRound ?g
       \<lparr>sidenoteColumnLeft = [1], sidenoteColumnRight = [0], hiddenSidenoteStorage = [],
        styleTop = [260, 4], columnsVisible = False\<rparr> 0 [260, 4] = GiveUp [260, 4]"
    by code_simp
  from C2_giving_up [OF ok run]
  have "columnsVisible \<lparr>sidenoteColumnLeft = [1], sidenoteColumnRight = [0],
          hiddenSidenoteStorage = [], styleTop = [260, 4], columnsVisible = False\<rparr>
     = columnsVisible ?d"
    by blast
  with ok run gu show ?thesis by blast
qed

subsection \<open>Separation of the sidenotes of a column\<close>









end
